theory Spec2Isabelle
  imports Main "HOL-Library.Multiset" "HOL-Library.Sublist"
begin

section \<open>The provisioning engine of boskos/gcp/config.go\<close>

text \<open>
  The development embeds \<^verbatim>\<open>construct\<close> of \<^verbatim>\<open>boskos/gcp/config.go\<close> and the
  pieces it is built from: the zone ring (\<^verbatim>\<open>stringRing\<close>), the project pop
  (\<^verbatim>\<open>popProject\<close>), the sequential dispatch loop, the task group with its result
  channel, and the aggregation loop.
\<close>

subsection \<open>Data model\<close>

text \<open>
  Errors are values. \<open>ClientNotSet\<close> and \<open>RunningOutOfProject\<close> are the two errors
  that \<^verbatim>\<open>construct\<close> makes itself with \<^verbatim>\<open>fmt.Errorf\<close>; every error handed back by a
  collaborator (zone listing, creation, user data encoding) is an \<open>External\<close> one.
\<close>

datatype error = ClientNotSet | RunningOutOfProject | External string

record InstanceInfo =
  Name :: string
  Zone :: string

record ProjectInfo =
  Clusters :: "InstanceInfo list"
  VMs :: "InstanceInfo list"

type_synonym ResourceInfo = "string \<rightharpoonup> ProjectInfo"

text \<open>
  \<^verbatim>\<open>clusterConfig\<close>, \<^verbatim>\<open>virtualMachineConfig\<close> and \<^verbatim>\<open>common.Resource\<close> are declared
  outside the files at hand; \<^verbatim>\<open>construct\<close> reads and writes only the \<^verbatim>\<open>Zone\<close> field
  of the first two and reads only the \<^verbatim>\<open>Name\<close> field of the third. They are records
  with that field; every function below is stated over the extensible record scheme,
  so whatever other fields the declarations have are carried along untouched.
\<close>

record clusterConfig =
  cl_Zone :: string

record virtualMachineConfig =
  vm_Zone :: string

record Resource =
  r_Name :: string

record ('c, 'v) projectConfig =
  pc_Clusters :: "'c clusterConfig_scheme list"
  pc_Vms :: "'v virtualMachineConfig_scheme list"

text \<open>
  \<^verbatim>\<open>resourceConfigs\<close> is a Go map from the resource type to its project configs. The
  loop \<^verbatim>\<open>for rType, pcs := range rc\<close> visits its entries in an order the language
  leaves open, so the map is given as the list of its entries in the order visited
  (the keys of a map are distinct).
\<close>

type_synonym ('c, 'v) resourceConfigs = "(string \<times> ('c, 'v) projectConfig list) list"

text \<open>
  \<^verbatim>\<open>common.TypeToResources\<close> is indexed by a string and assigned at an index, so it is
  a Go map from the resource type to a slice of resources. Reading a missing key gives
  the nil slice, of length 0.
\<close>

type_synonym 'r TypeToResources = "string \<rightharpoonup> 'r Resource_scheme list"

definition lookup :: "'r TypeToResources \<Rightarrow> string \<Rightarrow> 'r Resource_scheme list" where
  "lookup m k = (case m k of None \<Rightarrow> [] | Some rs \<Rightarrow> rs)"

text \<open>
  A Go map value is a reference to the map object: assigning it to another variable
  makes both name the same object. The store holds the map objects by address.
\<close>

type_synonym ref = nat
type_synonym 'r store = "ref \<Rightarrow> 'r TypeToResources"

text \<open>The message between a creation task and the aggregation loop.\<close>

record com =
  p :: string
  ci :: "InstanceInfo option"
  vmi :: "InstanceInfo option"

definition maxChannels :: nat where
  "maxChannels = 100"

subsection \<open>The zone ring\<close>

record stringRing =
  index :: int
  values_ring :: "string list"

text \<open>
  \<^verbatim>\<open>r.values[r.index]\<close> panics when the index is not within the slice; the model
  returns \<open>None\<close> there. Otherwise the value at the cursor is returned together with
  the ring whose cursor has moved on.
\<close>

definition stringRing_next :: "stringRing \<Rightarrow> (string \<times> stringRing) option" where
  "stringRing_next r =
     (if 0 \<le> index r \<and> index r < int (length (values_ring r))
      then Some (values_ring r ! nat (index r),
                 r\<lparr>index := (index r + 1) mod int (length (values_ring r))\<rparr>)
      else None)"

definition newStringRing :: "string list \<Rightarrow> stringRing" where
  "newStringRing zones = \<lparr>index = 0, values_ring = zones\<rparr>"

text \<open>\<open>n\<close> successive calls of \<^verbatim>\<open>next()\<close> on one ring: the values returned, in order,
  and the ring afterwards.\<close>

fun next_calls :: "nat \<Rightarrow> stringRing \<Rightarrow> (string list \<times> stringRing) option" where
  "next_calls 0 r = Some ([], r)"
| "next_calls (Suc n) r =
     (case stringRing_next r of
        None \<Rightarrow> None
      | Some (z, r') \<Rightarrow>
          (case next_calls n r' of
             None \<Rightarrow> None
           | Some (zs, r'') \<Rightarrow> Some (z # zs, r'')))"

subsection \<open>The client and its collaborators\<close>

text \<open>
  The context handed to a creation call is \<^verbatim>\<open>derivedCtx\<close>, the context of the task
  group. The group cancels it when the first task returns an error; \<open>Cancelled\<close> is
  that state, \<open>Live\<close> the state before. (The deadline of \<^verbatim>\<open>context.WithTimeout\<close> is
  real time and is not modelled: a creation that runs into it shows as a creation
  that returns an error.)
\<close>

datatype ctx = Live | Cancelled

text \<open>
  \<^verbatim>\<open>Client\<close> holds the two interfaces \<^verbatim>\<open>clusterCreator\<close> and \<^verbatim>\<open>vmCreator\<close>; their
  implementations are collaborators and are parameters here. A Go call returning
  \<^verbatim>\<open>(*InstanceInfo, error)\<close> returns a pair of two nullable values.
\<close>

record ('c, 'v) Client =
  gke_create :: "ctx \<Rightarrow> string \<Rightarrow> 'c clusterConfig_scheme \<Rightarrow> InstanceInfo option \<times> error option"
  gce_create :: "ctx \<Rightarrow> string \<Rightarrow> 'v virtualMachineConfig_scheme \<Rightarrow> InstanceInfo option \<times> error option"
  gce_listZones :: "string \<Rightarrow> string list \<times> error option"

text \<open>
  \<^verbatim>\<open>common.UserData\<close> with its method \<^verbatim>\<open>Set\<close>, which encodes the value and stores the
  text under the key. The encoder belongs to a library and is a parameter.
\<close>

type_synonym UserData = "string \<rightharpoonup> string"

definition ResourceConfigType :: string where
  "ResourceConfigType = ''GCPResourceConfig''"

definition UserData_Set ::
  "(ResourceInfo \<Rightarrow> error + string) \<Rightarrow> UserData \<Rightarrow> string \<Rightarrow> ResourceInfo \<Rightarrow> error + UserData" where
  "UserData_Set marshal ud k v =
     (case marshal v of Inl e \<Rightarrow> Inl e | Inr txt \<Rightarrow> Inr (ud(k \<mapsto> txt)))"

subsection \<open>The project pool\<close>

text \<open>
  The closure \<^verbatim>\<open>popProject\<close> reads and assigns the map object that \<^verbatim>\<open>typesCopy\<close>
  names: it returns the last resource of the slice under \<open>rType\<close> and stores the slice
  without it, or returns nil when the slice is empty.
\<close>

definition popProject ::
  "ref \<Rightarrow> string \<Rightarrow> 'r store \<Rightarrow> 'r Resource_scheme option \<times> 'r store" where
  "popProject typesCopy rType s =
     (let rs = lookup (s typesCopy) rType in
      if length rs = 0 then (None, s)
      else (Some (last rs), s(typesCopy := (s typesCopy)(rType \<mapsto> butlast rs))))"

subsection \<open>The dispatch loop\<close>

text \<open>
  A task is one function handed to \<^verbatim>\<open>errGroup.Go\<close>: it has captured the name of its
  project and its spec, with the zone already written into the spec.
\<close>

datatype ('c, 'v) task =
  ClusterTask string "'c clusterConfig_scheme"
| VmTask string "'v virtualMachineConfig_scheme"

fun task_project :: "('c, 'v) task \<Rightarrow> string" where
  "task_project (ClusterTask pr cl) = pr"
| "task_project (VmTask pr vm) = pr"

text \<open>The zone assignment at the head of each loop body: a spec with an empty zone
  takes the next value of the ring, any other spec is left as it is.\<close>

definition cluster_zone ::
  "stringRing \<Rightarrow> 'c clusterConfig_scheme \<Rightarrow> ('c clusterConfig_scheme \<times> stringRing) option" where
  "cluster_zone zoneRing cl =
     (if cl_Zone cl = []
      then (case stringRing_next zoneRing of
              None \<Rightarrow> None
            | Some (z, r') \<Rightarrow> Some (cl\<lparr>cl_Zone := z\<rparr>, r'))
      else Some (cl, zoneRing))"

definition vm_zone ::
  "stringRing \<Rightarrow> 'v virtualMachineConfig_scheme \<Rightarrow>
     ('v virtualMachineConfig_scheme \<times> stringRing) option" where
  "vm_zone zoneRing vm =
     (if vm_Zone vm = []
      then (case stringRing_next zoneRing of
              None \<Rightarrow> None
            | Some (z, r') \<Rightarrow> Some (vm\<lparr>vm_Zone := z\<rparr>, r'))
      else Some (vm, zoneRing))"

text \<open>
  The loop over \<^verbatim>\<open>pc.Clusters\<close> and the loop over \<^verbatim>\<open>pc.Vms\<close>. Each returns the tasks it has handed
  to \<^verbatim>\<open>errGroup.Go\<close>, in order, and the ring afterwards; the ring is \<open>None\<close> when
  \<^verbatim>\<open>next()\<close> panicked, and the tasks are then those started before the panic.
\<close>

fun clusters_loop ::
  "string \<Rightarrow> stringRing \<Rightarrow> 'c clusterConfig_scheme list \<Rightarrow>
     ('c, 'v) task list \<times> stringRing option" where
  "clusters_loop project zoneRing [] = ([], Some zoneRing)"
| "clusters_loop project zoneRing (cl # cls) =
     (case cluster_zone zoneRing cl of
        None \<Rightarrow> ([], None)
      | Some (cl', r') \<Rightarrow>
          (case clusters_loop project r' cls of
             (ts, ro) \<Rightarrow> (ClusterTask project cl' # ts, ro)))"

fun vms_loop ::
  "string \<Rightarrow> stringRing \<Rightarrow> 'v virtualMachineConfig_scheme list \<Rightarrow>
     ('c, 'v) task list \<times> stringRing option" where
  "vms_loop project zoneRing [] = ([], Some zoneRing)"
| "vms_loop project zoneRing (vm # vms) =
     (case vm_zone zoneRing vm of
        None \<Rightarrow> ([], None)
      | Some (vm', r') \<Rightarrow>
          (case vms_loop project r' vms of
             (ts, ro) \<Rightarrow> (VmTask project vm' # ts, ro)))"

text \<open>How a stretch of the dispatch loop ends: it ran through, it returned an error,
  or it panicked.\<close>

datatype status = Done | Failed error | Panicked

text \<open>
  The body of the inner loop, for one project config: pop a project, list its zones,
  build the ring, run the cluster loop and then the VM loop on that one ring. The
  result is the store, the tasks started, and how the body ended.
\<close>

definition pc_body ::
  "('c, 'v) Client \<Rightarrow> ref \<Rightarrow> string \<Rightarrow> ('c, 'v) projectConfig \<Rightarrow> 'r store \<Rightarrow>
     'r store \<times> ('c, 'v) task list \<times> status" where
  "pc_body gcpClient typesCopy rType pc s =
     (case popProject typesCopy rType s of
        (None, s') \<Rightarrow> (s', [], Failed RunningOutOfProject)
      | (Some project, s') \<Rightarrow>
          (case gce_listZones gcpClient (r_Name project) of
             (zones, Some e) \<Rightarrow> (s', [], Failed e)
           | (zones, None) \<Rightarrow>
               (case clusters_loop (r_Name project) (newStringRing zones) (pc_Clusters pc) of
                  (ts1, None) \<Rightarrow> (s', ts1, Panicked)
                | (ts1, Some r1) \<Rightarrow>
                    (case vms_loop (r_Name project) r1 (pc_Vms pc) of
                       (ts2, None) \<Rightarrow> (s', ts1 @ ts2, Panicked)
                     | (ts2, Some r2) \<Rightarrow> (s', ts1 @ ts2, Done)))))"

text \<open>The inner loop \<^verbatim>\<open>for _, pc := range pcs\<close> and the outer loop
  \<^verbatim>\<open>for rType, pcs := range rc\<close>; an error return or a panic leaves both.\<close>

fun pcs_loop ::
  "('c, 'v) Client \<Rightarrow> ref \<Rightarrow> string \<Rightarrow> ('c, 'v) projectConfig list \<Rightarrow> 'r store \<Rightarrow>
     'r store \<times> ('c, 'v) task list \<times> status" where
  "pcs_loop gcpClient typesCopy rType [] s = (s, [], Done)"
| "pcs_loop gcpClient typesCopy rType (pc # pcs) s =
     (case pc_body gcpClient typesCopy rType pc s of
        (s', ts, Done) \<Rightarrow>
          (case pcs_loop gcpClient typesCopy rType pcs s' of
             (s'', ts', st) \<Rightarrow> (s'', ts @ ts', st))
      | (s', ts, st) \<Rightarrow> (s', ts, st))"

fun rc_loop ::
  "('c, 'v) Client \<Rightarrow> ref \<Rightarrow> ('c, 'v) resourceConfigs \<Rightarrow> 'r store \<Rightarrow>
     'r store \<times> ('c, 'v) task list \<times> status" where
  "rc_loop gcpClient typesCopy [] s = (s, [], Done)"
| "rc_loop gcpClient typesCopy ((rType, pcs) # rc) s =
     (case pcs_loop gcpClient typesCopy rType pcs s of
        (s', ts, Done) \<Rightarrow>
          (case rc_loop gcpClient typesCopy rc s' of
             (s'', ts', st) \<Rightarrow> (s'', ts @ ts', st))
      | (s', ts, st) \<Rightarrow> (s', ts, st))"


fun specs_loop ::
  "('c, 'v) Client \<Rightarrow> ref \<Rightarrow> (string \<times> ('c, 'v) projectConfig) list \<Rightarrow> 'r store \<Rightarrow>
     'r store \<times> ('c, 'v) task list \<times> status" where
  "specs_loop gcpClient typesCopy [] s = (s, [], Done)"
| "specs_loop gcpClient typesCopy ((rType, pc) # sps) s =
     (case pc_body gcpClient typesCopy rType pc s of
        (s', ts, Done) \<Rightarrow>
          (case specs_loop gcpClient typesCopy sps s' of
             (s'', ts', st) \<Rightarrow> (s'', ts @ ts', st))
      | (s', ts, st) \<Rightarrow> (s', ts, st))"

subsection \<open>The task group and the result channel\<close>

text \<open>
  The state of the task group: the contents of the buffered channel
  \<^verbatim>\<open>communication\<close>, oldest first; the error the group has recorded (the first one
  returned, kept by \<^verbatim>\<open>errOnce\<close>); and the number of tasks that stand blocked in a send.
  Nothing receives from the channel before \<^verbatim>\<open>errGroup.Wait\<close> has returned, so a send
  on a full channel never completes.
\<close>

record group =
  communication :: "com list"
  gerr :: "error option"
  blocked :: nat

definition group_init :: group where
  "group_init = \<lparr>communication = [], gerr = None, blocked = 0\<rparr>"

definition derivedCtx :: "group \<Rightarrow> ctx" where
  "derivedCtx g = (if gerr g = None then Live else Cancelled)"

definition send :: "com \<Rightarrow> group \<Rightarrow> group" where
  "send c g =
     (if length (communication g) < maxChannels
      then g\<lparr>communication := communication g @ [c]\<rparr>
      else g\<lparr>blocked := blocked g + 1\<rparr>)"

definition return_error :: "error \<Rightarrow> group \<Rightarrow> group" where
  "return_error e g = (if gerr g = None then g\<lparr>gerr := Some e\<rparr> else g)"

text \<open>
  One task running to its end: the creation call returns under the state the context
  has at that moment; an error is returned to the group, otherwise the result is sent.
\<close>

fun run_task :: "('c, 'v) Client \<Rightarrow> ('c, 'v) task \<Rightarrow> group \<Rightarrow> group" where
  "run_task gcpClient (ClusterTask project cl) g =
     (case gke_create gcpClient (derivedCtx g) project cl of
        (clusterInfo, Some err) \<Rightarrow> return_error err g
      | (clusterInfo, None) \<Rightarrow> send \<lparr>p = project, ci = clusterInfo, vmi = None\<rparr> g)"
| "run_task gcpClient (VmTask project vm) g =
     (case gce_create gcpClient (derivedCtx g) project vm of
        (vmInfo, Some err) \<Rightarrow> return_error err g
      | (vmInfo, None) \<Rightarrow> send \<lparr>p = project, ci = None, vmi = vmInfo\<rparr> g)"

text \<open>The tasks run concurrently; \<open>run_tasks\<close> takes them in the order in which they
  come to their end.\<close>

definition run_tasks :: "('c, 'v) Client \<Rightarrow> ('c, 'v) task list \<Rightarrow> group \<Rightarrow> group" where
  "run_tasks gcpClient ts g = fold (run_task gcpClient) ts g"

text \<open>\<^verbatim>\<open>errGroup.Wait\<close> returns the recorded error once every task has returned; with a
  task blocked in its send it never returns (\<open>None\<close>).\<close>

definition errGroup_Wait :: "group \<Rightarrow> error option option" where
  "errGroup_Wait g = (if blocked g = 0 then Some (gerr g) else None)"

subsection \<open>The aggregation loop\<close>

text \<open>
  The loop over the closed channel. \<^verbatim>\<open>*c.vmi\<close> in the else branch is a nil
  dereference when \<^verbatim>\<open>c.vmi\<close> is nil: the model returns \<open>None\<close> for that panic.
\<close>

fun aggregate :: "com list \<Rightarrow> ResourceInfo \<Rightarrow> ResourceInfo option" where
  "aggregate [] info = Some info"
| "aggregate (c # cs) info =
     (let pi = (case info (p c) of None \<Rightarrow> \<lparr>Clusters = [], VMs = []\<rparr> | Some pi \<Rightarrow> pi) in
      case ci c of
        Some clusterInfo \<Rightarrow>
          aggregate cs (info(p c \<mapsto> pi\<lparr>Clusters := Clusters pi @ [clusterInfo]\<rparr>))
      | None \<Rightarrow>
          (case vmi c of
             None \<Rightarrow> None
           | Some vmInfo \<Rightarrow> aggregate cs (info(p c \<mapsto> pi\<lparr>VMs := VMs pi @ [vmInfo]\<rparr>))))"

subsection \<open>construct\<close>

text \<open>
  What a call of \<^verbatim>\<open>construct\<close> comes to: it returns its three values (each of the
  two pointers and the error may be nil), it panics, or it never returns.
\<close>

datatype result =
  Returns "UserData option" "ResourceInfo option" "error option"
| Panics
| Hangs

text \<open>
  \<^verbatim>\<open>construct\<close>. The arguments are the global \<^verbatim>\<open>gcpClient\<close> (nil or a client), the
  encoder behind \<^verbatim>\<open>userData.Set\<close>, the order \<open>sched\<close> in which the started tasks come
  to their end (a rearrangement of its argument), the receiver \<open>rc\<close>, and \<^verbatim>\<open>types\<close> as
  a reference into the store. The result is the store afterwards, the tasks handed to
  \<^verbatim>\<open>errGroup.Go\<close>, and what the call came to. \<^verbatim>\<open>typesCopy := types\<close> copies the
  reference.
\<close>

definition construct ::
  "('c, 'v) Client option \<Rightarrow> (ResourceInfo \<Rightarrow> error + string) \<Rightarrow>
   (('c, 'v) task list \<Rightarrow> ('c, 'v) task list) \<Rightarrow>
   ('c, 'v) resourceConfigs \<Rightarrow> ref \<Rightarrow> 'r store \<Rightarrow>
     'r store \<times> ('c, 'v) task list \<times> result" where
  "construct gcpClient marshal sched rc types s =
     (case gcpClient of
        None \<Rightarrow> (s, [], Returns None None (Some ClientNotSet))
      | Some client \<Rightarrow>
          (let typesCopy = types in
           case rc_loop client typesCopy rc s of
             (s', started, Failed err) \<Rightarrow> (s', started, Returns None None (Some err))
           | (s', started, Panicked) \<Rightarrow> (s', started, Panics)
           | (s', started, Done) \<Rightarrow>
               (let g = run_tasks client (sched started) group_init in
                case errGroup_Wait g of
                  None \<Rightarrow> (s', started, Hangs)
                | Some (Some err) \<Rightarrow> (s', started, Returns None None (Some err))
                | Some None \<Rightarrow>
                    (case aggregate (communication g) Map.empty of
                       None \<Rightarrow> (s', started, Panics)
                     | Some info \<Rightarrow>
                         (case UserData_Set marshal Map.empty ResourceConfigType info of
                            Inl err \<Rightarrow> (s', started, Returns None None (Some err))
                          | Inr userData \<Rightarrow>
                              (s', started, Returns (Some userData) (Some info) None))))))"

text \<open>A completion order is any rearrangement of the started tasks.\<close>

definition rearranges :: "('a list \<Rightarrow> 'a list) \<Rightarrow> bool" where
  "rearranges sched = (\<forall>ts. mset (sched ts) = mset ts)"

subsection \<open>Notions used in the statements\<close>

text \<open>The creation call a task makes, and the message it sends when the call
  returned no error (both read off the two closures given to \<^verbatim>\<open>errGroup.Go\<close>).\<close>

fun create_call ::
  "('c, 'v) Client \<Rightarrow> ctx \<Rightarrow> ('c, 'v) task \<Rightarrow> InstanceInfo option \<times> error option" where
  "create_call gcpClient x (ClusterTask project cl) = gke_create gcpClient x project cl"
| "create_call gcpClient x (VmTask project vm) = gce_create gcpClient x project vm"

fun task_com :: "('c, 'v) task \<Rightarrow> InstanceInfo option \<Rightarrow> com" where
  "task_com (ClusterTask project cl) i = \<lparr>p = project, ci = i, vmi = None\<rparr>"
| "task_com (VmTask project vm) i = \<lparr>p = project, ci = None, vmi = i\<rparr>"

text \<open>The number of clusters plus VMs across all entries of an inventory.\<close>

definition inventory_size :: "ResourceInfo \<Rightarrow> nat" where
  "inventory_size info =
     (\<Sum>pr \<in> dom info. length (Clusters (the (info pr))) + length (VMs (the (info pr))))"

text \<open>
  The contract of the two creation calls (section 6 of the specification: a call
  gives an instance info or an error): a call that returns a nil error returns a
  non-nil info. The implementations lie outside the files at hand, so the contract is
  a hypothesis wherever it is needed.
\<close>

definition creators_return_info_or_error :: "('c, 'v) Client \<Rightarrow> bool" where
  "creators_return_info_or_error gcpClient =
     ((\<forall>x pr cl. snd (gke_create gcpClient x pr cl) = None \<longrightarrow>
                  fst (gke_create gcpClient x pr cl) \<noteq> None) \<and>
      (\<forall>x pr vm. snd (gce_create gcpClient x pr vm) = None \<longrightarrow>
                  fst (gce_create gcpClient x pr vm) \<noteq> None))"

text \<open>The number of specs of a list that pin no zone.\<close>

definition unpinned_clusters :: "'c clusterConfig_scheme list \<Rightarrow> nat" where
  "unpinned_clusters cls = length (filter (\<lambda>cl. cl_Zone cl = []) cls)"

definition unpinned_vms :: "'v virtualMachineConfig_scheme list \<Rightarrow> nat" where
  "unpinned_vms vms = length (filter (\<lambda>vm. vm_Zone vm = []) vms)"

text \<open>
  The zone listing does its part: for every project it returns a non-empty list of
  zones and no error.
\<close>

definition zones_listed :: "('c, 'v) Client \<Rightarrow> bool" where
  "zones_listed gcpClient =
     (\<forall>pr. \<exists>zones. zones \<noteq> [] \<and> gce_listZones gcpClient pr = (zones, None))"

text \<open>The store after one pop.\<close>

definition popped :: "ref \<Rightarrow> string \<Rightarrow> 'r store \<Rightarrow> 'r store" where
  "popped t rType s = s(t := (s t)(rType \<mapsto> butlast (lookup (s t) rType)))"

text \<open>
  The instances a list of tasks creates in one project: the infos that the creation
  calls of the project's cluster tasks (VM tasks) return under a live context, in the
  order of the list. \<open>entry_of\<close> reads an inventory the way the aggregation loop does:
  a missing entry is the empty one.
\<close>

fun created_clusters :: "('c, 'v) Client \<Rightarrow> string \<Rightarrow> ('c, 'v) task list \<Rightarrow> InstanceInfo list" where
  "created_clusters gcpClient pr [] = []"
| "created_clusters gcpClient pr (ClusterTask project cl # ts) =
     (if project = pr
      then (case fst (gke_create gcpClient Live project cl) of
              None \<Rightarrow> [] | Some clusterInfo \<Rightarrow> [clusterInfo])
      else []) @ created_clusters gcpClient pr ts"
| "created_clusters gcpClient pr (VmTask project vm # ts) = created_clusters gcpClient pr ts"

fun created_vms :: "('c, 'v) Client \<Rightarrow> string \<Rightarrow> ('c, 'v) task list \<Rightarrow> InstanceInfo list" where
  "created_vms gcpClient pr [] = []"
| "created_vms gcpClient pr (ClusterTask project cl # ts) = created_vms gcpClient pr ts"
| "created_vms gcpClient pr (VmTask project vm # ts) =
     (if project = pr
      then (case fst (gce_create gcpClient Live project vm) of
              None \<Rightarrow> [] | Some vmInfo \<Rightarrow> [vmInfo])
      else []) @ created_vms gcpClient pr ts"

definition entry_of :: "ResourceInfo \<Rightarrow> string \<Rightarrow> ProjectInfo" where
  "entry_of info pr = (case info pr of None \<Rightarrow> \<lparr>Clusters = [], VMs = []\<rparr> | Some pi \<Rightarrow> pi)"

subsection \<open>Concrete collaborators\<close>

text \<open>
  A client in the manner of a test fake: creation fails for a spec in zone \<open>bad\<close> and
  otherwise returns an instance in the zone of the spec; every project has the zones
  \<open>us-a\<close> and \<open>us-b\<close>. Beside it a client whose projects have no zone, an encoder that
  always succeeds, the completion order in which tasks end as they were started, and
  a store whose map at address 0 holds the one project \<open>proj-1\<close> under \<open>pool-X\<close>.
\<close>

definition fake_gke_create ::
  "ctx \<Rightarrow> string \<Rightarrow> 'c clusterConfig_scheme \<Rightarrow> InstanceInfo option \<times> error option" where
  "fake_gke_create x pr cl =
     (if cl_Zone cl = ''bad'' then (None, Some (External ''create failed''))
      else (Some \<lparr>Name = ''cluster'', Zone = cl_Zone cl\<rparr>, None))"

definition fake_gce_create ::
  "ctx \<Rightarrow> string \<Rightarrow> 'v virtualMachineConfig_scheme \<Rightarrow> InstanceInfo option \<times> error option" where
  "fake_gce_create x pr vm =
     (if vm_Zone vm = ''bad'' then (None, Some (External ''create failed''))
      else (Some \<lparr>Name = ''vm'', Zone = vm_Zone vm\<rparr>, None))"

definition fake_client :: "(unit, unit) Client" where
  "fake_client = \<lparr>gke_create = fake_gke_create, gce_create = fake_gce_create,
                  gce_listZones = (\<lambda>pr. ([''us-a'', ''us-b''], None))\<rparr>"

definition no_zones_client :: "(unit, unit) Client" where
  "no_zones_client = fake_client\<lparr>gce_listZones := (\<lambda>pr. ([], None))\<rparr>"

definition fake_marshal :: "ResourceInfo \<Rightarrow> error + string" where
  "fake_marshal info = Inr ''inventory''"

definition fifo :: "'a list \<Rightarrow> 'a list" where
  "fifo ts = ts"

definition one_project :: "unit store" where
  "one_project = (\<lambda>a. if a = 0 then [''pool-X'' \<mapsto> [\<lparr>r_Name = ''proj-1''\<rparr>]] else Map.empty)"

text \<open>
  Two more clients in the manner of test fakes: one whose cluster creation returns
  neither an info nor an error, and one whose zone listing fails.
\<close>

definition nil_client :: "(unit, unit) Client" where
  "nil_client = fake_client\<lparr>gke_create := (\<lambda>x pr cl. (None, None))\<rparr>"


text \<open>
  The number of tasks of a run whose creation call returns no error, the tasks taken
  in the order in which they come to their end: the context is cancelled from the
  first error on. These are the tasks that go on to send their result.
\<close>

fun successes :: "('c, 'v) Client \<Rightarrow> ctx \<Rightarrow> ('c, 'v) task list \<Rightarrow> nat" where
  "successes gcpClient x [] = 0"
| "successes gcpClient x (t # ts) =
     (case snd (create_call gcpClient x t) of
        None \<Rightarrow> Suc (successes gcpClient x ts)
      | Some err \<Rightarrow> successes gcpClient Cancelled ts)"








subsection \<open>Properties of the zone ring\<close>

lemma stringRing_next_in_range:
  assumes "0 \<le> index r" and "index r < int (length (values_ring r))"
  shows "stringRing_next r =
           Some (values_ring r ! nat (index r),
                 \<lparr>index = (index r + 1) mod int (length (values_ring r)),
                  values_ring = values_ring r\<rparr>)"
  using assms by (simp add: stringRing_next_def)

lemma next_calls_from:
  assumes "zs \<noteq> []" and "i < length zs"
  shows "next_calls n \<lparr>index = int i, values_ring = zs\<rparr> =
           Some (map (\<lambda>k. zs ! ((i + k) mod length zs)) [0..<n],
                 \<lparr>index = int ((i + n) mod length zs), values_ring = zs\<rparr>)"
  using assms
proof (induction n arbitrary: i)
  case 0
  then show ?case by simp
next
  case (Suc n)
  let ?j = "(i + 1) mod length zs"
  have j: "?j < length zs" using Suc.prems by simp
  have step: "stringRing_next \<lparr>index = int i, values_ring = zs\<rparr> =
                Some (zs ! i, \<lparr>index = int ?j, values_ring = zs\<rparr>)"
    using Suc.prems by (simp add: stringRing_next_def zmod_int add.commute)
  have shift: "map (\<lambda>k. zs ! ((i + k) mod length zs)) [0..<Suc n] =
                 zs ! i # map (\<lambda>k. zs ! ((?j + k) mod length zs)) [0..<n]"
  proof -
    have "[0..<Suc n] = 0 # map Suc [0..<n]"
      by (simp add: upt_conv_Cons map_Suc_upt del: upt_Suc)
    moreover have "\<And>k. (?j + k) mod length zs = (i + Suc k) mod length zs"
      by (simp add: mod_simps)
    ultimately show ?thesis using Suc.prems by (simp add: comp_def del: upt_Suc)
  qed
  have last_ix: "(?j + n) mod length zs = (i + Suc n) mod length zs"
    by (simp add: mod_simps)
  show ?case
    using Suc.IH [OF Suc.prems(1) j] step shift last_ix
    by (simp del: upt_Suc)
qed

lemma stringRing_next_keeps_range:
  assumes "stringRing_next r = Some (z, r')"
  shows "0 \<le> index r \<and> index r < int (length (values_ring r)) \<and>
         z = values_ring r ! nat (index r) \<and> values_ring r' = values_ring r \<and>
         0 \<le> index r' \<and> index r' < int (length (values_ring r'))"
proof -
  from assms have a: "0 \<le> index r" and b: "index r < int (length (values_ring r))"
    and z: "z = values_ring r ! nat (index r)"
    and r': "r' = r\<lparr>index := (index r + 1) mod int (length (values_ring r))\<rparr>"
    by (auto simp: stringRing_next_def split: if_splits)
  from a b have pos: "0 < int (length (values_ring r))" by linarith
  have "0 \<le> (index r + 1) mod int (length (values_ring r))"
    and "(index r + 1) mod int (length (values_ring r)) < int (length (values_ring r))"
    using pos by (simp_all only: pos_mod_sign pos_mod_bound)
  with a b z r' show ?thesis by simp
qed

text \<open>
  C6. On a ring built from a non-empty zone list, the \<open>k\<close>-th call of \<^verbatim>\<open>next()\<close>
  (counting from 0) returns the zone at position \<open>k mod length zones\<close>: the zones come
  in the order supplied and the ring wraps to the first one after the last. For the
  ring over \<open>[a, b, c]\<close> the first four calls return \<open>a, b, c, a\<close>.
\<close>

theorem ring_round_robin:
  assumes "zones \<noteq> []"
  shows "next_calls n (newStringRing zones) =
           Some (map (\<lambda>k. zones ! (k mod length zones)) [0..<n],
                 \<lparr>index = int (n mod length zones), values_ring = zones\<rparr>)"
proof -
  have "0 < length zones" using assms by simp
  from next_calls_from [OF assms this, of n] show ?thesis
    by (simp add: newStringRing_def)
qed

theorem ring_round_robin_witness:
  "[''a'', ''b'', ''c''] \<noteq> [] \<and>
   next_calls 4 (newStringRing [''a'', ''b'', ''c'']) =
     Some ([''a'', ''b'', ''c'', ''a''], \<lparr>index = 1, values_ring = [''a'', ''b'', ''c'']\<rparr>)"
proof -
  have ne: "[''a'', ''b'', ''c''] \<noteq> ([] :: string list)" by simp
  have upt4: "[0..<4] = [0, 1, 2, Suc 2]"
    by (simp add: upt_conv_Cons)
  show ?thesis
    using ring_round_robin [OF ne, of 4] by (simp add: upt4)
qed

subsection \<open>The task group\<close>

lemma run_task_alt:
  "run_task c t g =
     (case create_call c (derivedCtx g) t of
        (i, Some e) \<Rightarrow> return_error e g
      | (i, None) \<Rightarrow> send (task_com t i) g)"
  by (cases t) simp_all

lemma run_tasks_Nil [simp]: "run_tasks c [] g = g"
  by (simp add: run_tasks_def)

lemma run_tasks_Cons [simp]: "run_tasks c (t # ts) g = run_tasks c ts (run_task c t g)"
  by (simp add: run_tasks_def)

lemma run_tasks_append: "run_tasks c (xs @ ys) g = run_tasks c ys (run_tasks c xs g)"
  by (simp add: run_tasks_def)

lemma p_task_com [simp]: "p (task_com t i) = task_project t"
  by (cases t) simp_all

lemma blocked_run_task: "blocked g \<le> blocked (run_task c t g)"
  by (auto simp: run_task_alt send_def return_error_def split: prod.splits option.splits)

lemma blocked_run_tasks: "blocked g \<le> blocked (run_tasks c ts g)"
proof (induction ts arbitrary: g)
  case Nil
  show ?case by simp
next
  case (Cons t ts)
  have "blocked g \<le> blocked (run_task c t g)" by (rule blocked_run_task)
  also have "\<dots> \<le> blocked (run_tasks c ts (run_task c t g))" by (rule Cons.IH)
  finally show ?case by simp
qed

lemma gerr_run_task_kept: "gerr g = Some e \<Longrightarrow> gerr (run_task c t g) = Some e"
  by (auto simp: run_task_alt send_def return_error_def split: prod.splits option.splits)

lemma gerr_run_tasks_kept: "gerr g = Some e \<Longrightarrow> gerr (run_tasks c ts g) = Some e"
  by (induction ts arbitrary: g) (simp_all add: gerr_run_task_kept)

lemma room_run_task:
  assumes "length (communication g) < maxChannels"
  shows "blocked (run_task c t g) = blocked g \<and>
         length (communication (run_task c t g)) \<le> Suc (length (communication g))"
  using assms
  by (auto simp: run_task_alt send_def return_error_def split: prod.splits option.splits)

lemma room_run_tasks:
  assumes "length (communication g) + length ts \<le> maxChannels"
  shows "blocked (run_tasks c ts g) = blocked g \<and>
         length (communication (run_tasks c ts g)) \<le> length (communication g) + length ts"
  using assms
proof (induction ts arbitrary: g)
  case Nil
  show ?case by simp
next
  case (Cons t ts)
  let ?g = "run_task c t g"
  have lt: "length (communication g) < maxChannels" using Cons.prems by simp
  have one: "blocked ?g = blocked g" "length (communication ?g) \<le> Suc (length (communication g))"
    using room_run_task [OF lt, of c t] by simp_all
  have "length (communication ?g) + length ts \<le> maxChannels"
    using one(2) Cons.prems by simp
  from Cons.IH [OF this] one show ?case by simp
qed

text \<open>When no creation fails, every task either has its message in the channel or
  stands blocked.\<close>

lemma count_run_task:
  assumes "snd (create_call c (derivedCtx g) t) = None"
    and "length (communication g) \<le> maxChannels"
  shows "length (communication (run_task c t g)) + blocked (run_task c t g) =
           Suc (length (communication g) + blocked g) \<and>
         length (communication (run_task c t g)) \<le> maxChannels \<and>
         gerr (run_task c t g) = gerr g"
  using assms
  by (auto simp: run_task_alt send_def split: prod.splits option.splits)

lemma count_run_tasks:
  assumes "\<forall>t \<in> set ts. \<forall>x. snd (create_call c x t) = None"
    and "length (communication g) \<le> maxChannels"
  shows "length (communication (run_tasks c ts g)) + blocked (run_tasks c ts g) =
           length (communication g) + blocked g + length ts \<and>
         length (communication (run_tasks c ts g)) \<le> maxChannels"
  using assms
proof (induction ts arbitrary: g)
  case Nil
  then show ?case by simp
next
  case (Cons t ts)
  have ok: "snd (create_call c (derivedCtx g) t) = None" using Cons.prems(1) by simp
  note one = count_run_task [OF ok Cons.prems(2)]
  have rest: "\<forall>t \<in> set ts. \<forall>x. snd (create_call c x t) = None" using Cons.prems(1) by simp
  from Cons.IH [OF rest] one show ?case by simp
qed

text \<open>The error recorded by the group is that of the first task to fail.\<close>

lemma ok_run_task:
  assumes "gerr g = None" and "snd (create_call c Live t) = None"
  shows "gerr (run_task c t g) = None"
  using assms
  by (auto simp: run_task_alt send_def derivedCtx_def split: prod.splits option.splits)

lemma ok_run_tasks:
  assumes "gerr g = None" and "\<forall>t \<in> set ts. snd (create_call c Live t) = None"
  shows "gerr (run_tasks c ts g) = None"
  using assms
  by (induction ts arbitrary: g) (simp_all add: ok_run_task)

lemma fail_run_task:
  assumes "gerr g = None" and "snd (create_call c Live t) = Some e"
  shows "gerr (run_task c t g) = Some e"
  using assms
  by (auto simp: run_task_alt return_error_def derivedCtx_def split: prod.splits option.splits)

lemma first_error_recorded:
  assumes "\<forall>t \<in> set before. snd (create_call c Live t) = None"
    and "snd (create_call c Live t) = Some e"
  shows "gerr (run_tasks c (before @ t # after) group_init) = Some e"
proof -
  have "gerr (run_tasks c before group_init) = None"
    using assms(1) by (intro ok_run_tasks) (simp_all add: group_init_def)
  then have "gerr (run_task c t (run_tasks c before group_init)) = Some e"
    using assms(2) by (rule fail_run_task)
  then show ?thesis
    by (simp add: run_tasks_append gerr_run_tasks_kept)
qed

text \<open>Every run in which the group records an error has a first task to fail, and the
  error recorded is the one its creation call returned under the live context.\<close>

lemma first_failure_from:
  assumes "gerr g = None" and "gerr (run_tasks c ts g) = Some e"
  shows "\<exists>before t after. ts = before @ t # after \<and>
           (\<forall>u \<in> set before. snd (create_call c Live u) = None) \<and>
           snd (create_call c Live t) = Some e"
  using assms
proof (induction ts arbitrary: g)
  case Nil
  then show ?case by simp
next
  case (Cons t ts)
  show ?case
  proof (cases "snd (create_call c Live t)")
    case None
    from ok_run_task [OF Cons.prems(1) None]
    have "gerr (run_task c t g) = None" .
    from Cons.IH [OF this] Cons.prems(2)
    obtain before u after where "ts = before @ u # after"
      and "\<forall>v \<in> set before. snd (create_call c Live v) = None"
      and "snd (create_call c Live u) = Some e"
      by auto
    with None have "t # ts = (t # before) @ u # after"
      and "\<forall>v \<in> set (t # before). snd (create_call c Live v) = None"
      and "snd (create_call c Live u) = Some e"
      by simp_all
    then show ?thesis by blast
  next
    case (Some e')
    from fail_run_task [OF Cons.prems(1) Some]
    have "gerr (run_task c t g) = Some e'" .
    from gerr_run_tasks_kept [OF this, of c ts] Cons.prems(2) have "e' = e" by simp
    with Some have "t # ts = [] @ t # ts"
      and "\<forall>v \<in> set []. snd (create_call c Live v) = None"
      and "snd (create_call c Live t) = Some e"
      by simp_all
    then show ?thesis by blast
  qed
qed

subsection \<open>Unfolding construct\<close>

lemmas run_simps = construct_def pc_body_def popProject_def lookup_def fake_client_def
  no_zones_client_def fake_marshal_def fifo_def one_project_def newStringRing_def
  cluster_zone_def vm_zone_def stringRing_next_def run_tasks_def group_init_def
  derivedCtx_def send_def return_error_def errGroup_Wait_def UserData_Set_def
  fake_gke_create_def fake_gce_create_def maxChannels_def

lemma rearranges_length: "rearranges sched \<Longrightarrow> length (sched ts) = length ts"
  by (metis rearranges_def size_mset)

lemma rearranges_set: "rearranges sched \<Longrightarrow> set (sched ts) = set ts"
  by (metis rearranges_def set_mset_mset)

lemma rearranges_fifo: "rearranges fifo"
  by (simp add: rearranges_def fifo_def)

lemma clusters_loop_pinned:
  "\<forall>cl \<in> set cls. cl_Zone cl \<noteq> [] \<Longrightarrow>
     clusters_loop pr r cls = (map (ClusterTask pr) cls, Some r)"
  by (induction cls) (simp_all add: cluster_zone_def)

lemma vms_loop_pinned:
  "\<forall>vm \<in> set vms. vm_Zone vm \<noteq> [] \<Longrightarrow>
     vms_loop pr r vms = (map (VmTask pr) vms, Some r)"
  by (induction vms) (simp_all add: vm_zone_def)

lemma construct_Done:
  assumes "snd (rc_loop client types rc s) = (started, Done)"
  shows "snd (construct (Some client) marshal sched rc types s) =
           (started,
            let g = run_tasks client (sched started) group_init in
            case errGroup_Wait g of
              None \<Rightarrow> Hangs
            | Some (Some err) \<Rightarrow> Returns None None (Some err)
            | Some None \<Rightarrow>
                (case aggregate (communication g) Map.empty of
                   None \<Rightarrow> Panics
                 | Some info \<Rightarrow>
                     (case UserData_Set marshal Map.empty ResourceConfigType info of
                        Inl err \<Rightarrow> Returns None None (Some err)
                      | Inr userData \<Rightarrow> Returns (Some userData) (Some info) None)))"
  using assms
  by (cases "rc_loop client types rc s")
     (simp add: construct_def Let_def split: option.splits sum.splits)

lemma construct_not_Done:
  assumes "snd (rc_loop client types rc s) = (started, st)" and "st \<noteq> Done"
  shows "snd (construct (Some client) marshal sched rc types s) =
           (started, case st of Failed err \<Rightarrow> Returns None None (Some err) | _ \<Rightarrow> Panics)"
  using assms
  by (cases "rc_loop client types rc s"; cases st) (simp_all add: construct_def)

lemma hangs_beyond_capacity:
  assumes "snd (rc_loop client types rc s) = (started, Done)"
    and "\<forall>t \<in> set (sched started). \<forall>x. snd (create_call client x t) = None"
    and "maxChannels < length (sched started)"
  shows "snd (snd (construct (Some client) marshal sched rc types s)) = Hangs"
proof -
  let ?g = "run_tasks client (sched started) group_init"
  have "length (communication group_init) \<le> maxChannels" by (simp add: group_init_def)
  from count_run_tasks [OF assms(2) this]
  have "length (communication ?g) + blocked ?g = length (sched started)"
    and "length (communication ?g) \<le> maxChannels"
    by (simp_all add: group_init_def)
  with assms(3) have "blocked ?g \<noteq> 0" by linarith
  then have "errGroup_Wait ?g = None" by (simp add: errGroup_Wait_def)
  then show ?thesis by (simp add: construct_Done [OF assms(1)] Let_def)
qed

lemma pinned_clusters_dispatch:
  assumes "\<forall>cl \<in> set cls. cl_Zone cl \<noteq> []"
  shows "snd (rc_loop fake_client 0 [(''pool-X'', [\<lparr>pc_Clusters = cls, pc_Vms = []\<rparr>])] one_project) =
           (map (ClusterTask ''proj-1'') cls, Done)"
  by (simp add: pc_body_def popProject_def lookup_def one_project_def fake_client_def
        clusters_loop_pinned [OF assms])

lemma two_orders:
  assumes "mset xs = {#a, b#}"
  shows "xs = [a, b] \<or> xs = [b, a]"
proof -
  have "length xs = 2" using arg_cong [OF assms, of size] by simp
  then obtain x y where xs: "xs = [x, y]"
    by (metis (no_types) length_0_conv length_Suc_conv numeral_2_eq_2)
  with assms have "{#x, y#} = {#a, b#}" by simp
  then have "(x = a \<and> y = b) \<or> (x = b \<and> y = a)"
    by (auto simp: add_eq_conv_ex)
  with xs show ?thesis by auto
qed

lemma construct_inventory:
  assumes "snd (construct (Some client) marshal sched rc types s) =
             (started, Returns (Some userData) (Some info) None)"
  shows "snd (rc_loop client types rc s) = (started, Done)"
    and "errGroup_Wait (run_tasks client (sched started) group_init) = Some None"
    and "aggregate (communication (run_tasks client (sched started) group_init)) Map.empty =
           Some info"
proof -
  obtain started' st where d: "snd (rc_loop client types rc s) = (started', st)"
    by (cases "snd (rc_loop client types rc s)")
  have "st = Done"
  proof (rule ccontr)
    assume "st \<noteq> Done"
    from construct_not_Done [OF d this, of marshal sched] assms show False
      by (simp split: status.splits)
  qed
  with d have dd: "snd (rc_loop client types rc s) = (started', Done)" by simp
  from assms have st: "started' = started"
    by (auto simp: construct_Done [OF dd] Let_def split: option.splits sum.splits)
  with dd show "snd (rc_loop client types rc s) = (started, Done)" by simp
  from assms
  show "errGroup_Wait (run_tasks client (sched started) group_init) = Some None"
    and "aggregate (communication (run_tasks client (sched started) group_init)) Map.empty =
           Some info"
    by (auto simp: construct_Done [OF dd] st Let_def split: option.splits sum.splits)
qed

subsection \<open>A group that settled without error\<close>

lemma return_error_gerr: "gerr (return_error e g) \<noteq> None"
  by (simp add: return_error_def)

lemma settled_run_task:
  assumes "gerr (run_task c t g) = None" and "blocked (run_task c t g) = 0"
  shows "\<exists>i. communication (run_task c t g) = communication g @ [task_com t i] \<and>
             create_call c Live t = (i, None)"
    and "gerr g = None" and "blocked g = 0"
  using assms
  by (auto simp: run_task_alt send_def return_error_def derivedCtx_def
           split: prod.splits option.splits if_splits)

lemma settled_run_tasks:
  assumes "gerr (run_tasks c ts g) = None" and "blocked (run_tasks c ts g) = 0"
  shows "map p (communication (run_tasks c ts g)) =
           map p (communication g) @ map task_project ts \<and>
         gerr g = None \<and> blocked g = 0"
  using assms
proof (induction ts arbitrary: g)
  case Nil
  then show ?case by simp
next
  case (Cons t ts)
  let ?g = "run_task c t g"
  from Cons.prems have fin: "gerr (run_tasks c ts ?g) = None" "blocked (run_tasks c ts ?g) = 0"
    by simp_all
  from Cons.IH [OF fin]
  have ih: "map p (communication (run_tasks c ts ?g)) =
              map p (communication ?g) @ map task_project ts"
    and e: "gerr ?g = None" and b: "blocked ?g = 0"
    by simp_all
  from settled_run_task [OF e b]
  obtain i where "communication ?g = communication g @ [task_com t i]"
    and "gerr g = None" and "blocked g = 0"
    by blast
  with ih show ?case by simp
qed

lemma settled_messages:
  assumes "gerr (run_tasks c ts g) = None" and "blocked (run_tasks c ts g) = 0"
  shows "communication (run_tasks c ts g) =
           communication g @ map (\<lambda>t. task_com t (fst (create_call c Live t))) ts"
  using assms
proof (induction ts arbitrary: g)
  case Nil
  then show ?case by simp
next
  case (Cons t ts)
  let ?g = "run_task c t g"
  from Cons.prems have fin: "gerr (run_tasks c ts ?g) = None" "blocked (run_tasks c ts ?g) = 0"
    by simp_all
  from settled_run_tasks [OF fin] have e: "gerr ?g = None" and b: "blocked ?g = 0"
    by simp_all
  from settled_run_task(1) [OF e b]
  have "communication ?g = communication g @ [task_com t (fst (create_call c Live t))]"
    by auto
  with Cons.IH [OF fin] show ?case by simp
qed

subsection \<open>The aggregation loop\<close>

lemma inventory_size_upd:
  assumes "finite (dom m)"
  shows "inventory_size (m(k \<mapsto> v)) +
           (case m k of None \<Rightarrow> 0 | Some w \<Rightarrow> length (Clusters w) + length (VMs w)) =
         inventory_size m + (length (Clusters v) + length (VMs v))"
proof -
  let ?f = "\<lambda>m pr. length (Clusters (the (m pr))) + length (VMs (the (m pr)))"
  have fin: "finite (dom m - {k})" using assms by simp
  have rest: "sum (?f (m(k \<mapsto> v))) (dom m - {k}) = sum (?f m) (dom m - {k})"
    by (rule sum.cong) auto
  have new: "inventory_size (m(k \<mapsto> v)) = ?f (m(k \<mapsto> v)) k + sum (?f m) (dom m - {k})"
    unfolding inventory_size_def using assms rest
    by (simp add: sum.insert_remove)
  show ?thesis
  proof (cases "m k")
    case None
    then have "k \<notin> dom m" by auto
    then have "dom m - {k} = dom m" by auto
    with new None show ?thesis by (simp add: inventory_size_def)
  next
    case (Some w)
    then have "k \<in> dom m" by auto
    from sum.remove [OF assms this, of "?f m"]
    have "inventory_size m = ?f m k + sum (?f m) (dom m - {k})"
      by (simp add: inventory_size_def)
    with new Some show ?thesis by simp
  qed
qed

lemma aggregate_dom_size:
  assumes "aggregate cs info0 = Some info" and "finite (dom info0)"
  shows "dom info = dom info0 \<union> p ` set cs \<and>
         inventory_size info = inventory_size info0 + length cs"
  using assms
proof (induction cs arbitrary: info0)
  case Nil
  then show ?case by simp
next
  case (Cons c cs)
  let ?pi = "case info0 (p c) of None \<Rightarrow> \<lparr>Clusters = [], VMs = []\<rparr> | Some pi \<Rightarrow> pi"
  obtain pi' where step: "aggregate cs (info0(p c \<mapsto> pi')) = Some info"
    and grow: "length (Clusters pi') + length (VMs pi') =
                 Suc (length (Clusters ?pi) + length (VMs ?pi))"
    using Cons.prems(1)
    by (auto simp: Let_def split: option.splits)
  have fin: "finite (dom (info0(p c \<mapsto> pi')))" using Cons.prems(2) by simp
  from Cons.IH [OF step fin]
  have d: "dom info = dom (info0(p c \<mapsto> pi')) \<union> p ` set cs"
    and sz: "inventory_size info = inventory_size (info0(p c \<mapsto> pi')) + length cs"
    by blast+
  have "inventory_size (info0(p c \<mapsto> pi')) = Suc (inventory_size info0)"
    using inventory_size_upd [OF Cons.prems(2), of "p c" pi'] grow
    by (cases "info0 (p c)") simp_all
  with d sz show ?case by auto
qed

lemma inventory_size_empty [simp]: "inventory_size Map.empty = 0"
  by (simp add: inventory_size_def)

lemma created_none:
  assumes "pr \<notin> task_project ` set ts"
  shows "created_clusters c pr ts = []" and "created_vms c pr ts = []"
  using assms
  by (induction c pr ts rule: created_clusters.induct) auto

lemma entry_of_upd:
  "entry_of (info(k \<mapsto> e)) pr = (if pr = k then e else entry_of info pr)"
  by (simp add: entry_of_def)

lemma aggregate_entries:
  assumes "aggregate (map (\<lambda>t. task_com t (fst (create_call c Live t))) ts) info0 = Some info"
  shows "info pr =
           (if pr \<in> task_project ` set ts
            then Some \<lparr>Clusters = Clusters (entry_of info0 pr) @ created_clusters c pr ts,
                       VMs = VMs (entry_of info0 pr) @ created_vms c pr ts\<rparr>
            else info0 pr)"
  using assms
proof (induction ts arbitrary: info0)
  case Nil
  then show ?case by simp
next
  case (Cons t ts)
  show ?case
  proof (cases t)
    case (ClusterTask project cl)
    from Cons.prems obtain y where x: "fst (gke_create c Live project cl) = Some y"
      by (auto simp: ClusterTask Let_def split: option.splits)
    let ?e = "(entry_of info0 project)\<lparr>Clusters := Clusters (entry_of info0 project) @ [y]\<rparr>"
    from Cons.prems x have rest: "aggregate (map (\<lambda>t. task_com t (fst (create_call c Live t))) ts)
                   (info0(project \<mapsto> ?e)) = Some info"
      by (auto simp: ClusterTask entry_of_def Let_def split: option.splits)
    note ih = Cons.IH [OF rest]
    show ?thesis
    proof (cases "pr = project")
      case True
      show ?thesis
      proof (cases "pr \<in> task_project ` set ts")
        case in_rest: True
        with ih True x show ?thesis
          by (simp add: ClusterTask entry_of_upd split: option.splits)
      next
        case False
        with ih True x created_none [OF False, of c] show ?thesis
          by (simp add: ClusterTask entry_of_upd split: option.splits)
      qed
    next
      case False
      with ih show ?thesis
        by (simp add: ClusterTask entry_of_upd)
    qed
  next
    case (VmTask project vm)
    from Cons.prems obtain y where x: "fst (gce_create c Live project vm) = Some y"
      by (auto simp: VmTask Let_def split: option.splits)
    let ?e = "(entry_of info0 project)\<lparr>VMs := VMs (entry_of info0 project) @ [y]\<rparr>"
    from Cons.prems x have rest: "aggregate (map (\<lambda>t. task_com t (fst (create_call c Live t))) ts)
                   (info0(project \<mapsto> ?e)) = Some info"
      by (auto simp: VmTask entry_of_def Let_def split: option.splits)
    note ih = Cons.IH [OF rest]
    show ?thesis
    proof (cases "pr = project")
      case True
      show ?thesis
      proof (cases "pr \<in> task_project ` set ts")
        case in_rest: True
        with ih True x show ?thesis
          by (simp add: VmTask entry_of_upd split: option.splits)
      next
        case False
        with ih True x created_none [OF False, of c] show ?thesis
          by (simp add: VmTask entry_of_upd split: option.splits)
      qed
    next
      case False
      with ih show ?thesis
        by (simp add: VmTask entry_of_upd)
    qed
  qed
qed

subsection \<open>The variants of a message\<close>

lemma one_variant_run_task:
  assumes "creators_return_info_or_error c"
    and "\<forall>m \<in> set (communication g). (ci m = None) \<noteq> (vmi m = None)"
  shows "\<forall>m \<in> set (communication (run_task c t g)). (ci m = None) \<noteq> (vmi m = None)"
proof (cases t)
  case (ClusterTask pr cl)
  show ?thesis
  proof (cases "gke_create c (derivedCtx g) pr cl")
    case (Pair i e)
    with assms(1) have "e = None \<Longrightarrow> i \<noteq> None"
      by (metis creators_return_info_or_error_def fst_conv snd_conv)
    with Pair ClusterTask assms(2) show ?thesis
      by (cases e) (auto simp: send_def return_error_def)
  qed
next
  case (VmTask pr vm)
  show ?thesis
  proof (cases "gce_create c (derivedCtx g) pr vm")
    case (Pair i e)
    with assms(1) have "e = None \<Longrightarrow> i \<noteq> None"
      by (metis creators_return_info_or_error_def fst_conv snd_conv)
    with Pair VmTask assms(2) show ?thesis
      by (cases e) (auto simp: send_def return_error_def)
  qed
qed

lemma one_variant_run_tasks:
  assumes "creators_return_info_or_error c"
    and "\<forall>m \<in> set (communication g). (ci m = None) \<noteq> (vmi m = None)"
  shows "\<forall>m \<in> set (communication (run_tasks c ts g)). (ci m = None) \<noteq> (vmi m = None)"
  using assms(2)
proof (induction ts arbitrary: g)
  case Nil
  then show ?case by simp
next
  case (Cons t ts)
  from one_variant_run_task [OF assms(1) Cons.prems]
  have "\<forall>m \<in> set (communication (run_task c t g)). (ci m = None) \<noteq> (vmi m = None)" .
  from Cons.IH [OF this] show ?case by simp
qed

lemma aggregate_one_variant:
  assumes "\<forall>m \<in> set cs. (ci m = None) \<noteq> (vmi m = None)"
  shows "aggregate cs info \<noteq> None"
  using assms
proof (induction cs arbitrary: info)
  case Nil
  show ?case by simp
next
  case (Cons c cs)
  then have "(ci c = None) \<noteq> (vmi c = None)" and "\<forall>m \<in> set cs. (ci m = None) \<noteq> (vmi m = None)"
    by simp_all
  with Cons.IH show ?case
    by (cases "ci c"; cases "vmi c") (simp_all add: Let_def)
qed

lemma fake_client_contract: "creators_return_info_or_error fake_client"
  by (simp add: creators_return_info_or_error_def fake_client_def fake_gke_create_def
        fake_gce_create_def)

lemma created_run_task:
  assumes "gerr g = None"
    and "create_call c Live t = (Some i, None)"
    and "\<forall>m \<in> set (communication g). (ci m = None) \<noteq> (vmi m = None)"
  shows "gerr (run_task c t g) = None \<and>
         (\<forall>m \<in> set (communication (run_task c t g)). (ci m = None) \<noteq> (vmi m = None))"
  using assms
  by (cases t) (auto simp: derivedCtx_def send_def)

lemma created_run_tasks:
  assumes "gerr g = None"
    and "\<forall>t \<in> set ts. \<exists>i. create_call c Live t = (Some i, None)"
    and "\<forall>m \<in> set (communication g). (ci m = None) \<noteq> (vmi m = None)"
  shows "gerr (run_tasks c ts g) = None \<and>
         (\<forall>m \<in> set (communication (run_tasks c ts g)). (ci m = None) \<noteq> (vmi m = None))"
  using assms
proof (induction ts arbitrary: g)
  case Nil
  then show ?case by simp
next
  case (Cons t ts)
  from Cons.prems(2) obtain i where i: "create_call c Live t = (Some i, None)" by auto
  note one = created_run_task [OF Cons.prems(1) i Cons.prems(3)]
  have e: "gerr (run_task c t g) = None"
    using one by (rule conjunct1)
  have v: "\<forall>m \<in> set (communication (run_task c t g)). (ci m = None) \<noteq> (vmi m = None)"
    using one by (rule conjunct2)
  have r: "\<forall>t \<in> set ts. \<exists>i. create_call c Live t = (Some i, None)"
    using Cons.prems(2) by simp
  from Cons.IH [OF e r v] show ?case by simp
qed

lemma inventory_returned:
  assumes "rearranges sched"
    and "snd (rc_loop client types rc s) = (started, Done)"
    and "length started \<le> maxChannels"
    and "\<forall>t \<in> set started. \<exists>i. create_call client Live t = (Some i, None)"
    and "\<forall>info. \<exists>txt. marshal info = Inr txt"
  shows "\<exists>userData info.
           snd (construct (Some client) marshal sched rc types s) =
             (started, Returns (Some userData) (Some info) None)"
proof -
  let ?g = "run_tasks client (sched started) group_init"
  have "length (communication group_init) + length (sched started) \<le> maxChannels"
    using assms(1,3) by (simp add: group_init_def rearranges_length)
  from room_run_tasks [OF this, of client]
  have b: "blocked ?g = 0" by (simp add: group_init_def)
  have ok: "\<forall>t \<in> set (sched started). \<exists>i. create_call client Live t = (Some i, None)"
    using assms(4) by (simp add: rearranges_set [OF assms(1)])
  have g0: "gerr group_init = None"
    and c0: "\<forall>m \<in> set (communication group_init). (ci m = None) \<noteq> (vmi m = None)"
    by (simp_all add: group_init_def)
  note all = created_run_tasks [OF g0 ok c0]
  have e: "gerr ?g = None"
    using all by (rule conjunct1)
  have v: "\<forall>m \<in> set (communication ?g). (ci m = None) \<noteq> (vmi m = None)"
    using all by (rule conjunct2)
  from b e have w: "errGroup_Wait ?g = Some None" by (simp add: errGroup_Wait_def)
  from aggregate_one_variant [OF v, of "Map.empty"]
  obtain info where a: "aggregate (communication ?g) Map.empty = Some info" by auto
  from assms(5) obtain enc where m: "marshal info = Inr enc" by blast
  show ?thesis
    by (simp add: construct_Done [OF assms(2)] Let_def w a m UserData_Set_def)
qed

lemma never_both_run_task:
  assumes "\<forall>m \<in> set (communication g). ci m = None \<or> vmi m = None"
  shows "\<forall>m \<in> set (communication (run_task c t g)). ci m = None \<or> vmi m = None"
  using assms
  by (cases t) (auto simp: send_def return_error_def split: prod.splits option.splits)

lemma never_both_run_tasks:
  assumes "\<forall>m \<in> set (communication g). ci m = None \<or> vmi m = None"
  shows "\<forall>m \<in> set (communication (run_tasks c ts g)). ci m = None \<or> vmi m = None"
  using assms
proof (induction ts arbitrary: g)
  case Nil
  then show ?case by simp
next
  case (Cons t ts)
  from never_both_run_task [OF Cons.prems]
  have "\<forall>m \<in> set (communication (run_task c t g)). ci m = None \<or> vmi m = None" .
  from Cons.IH [OF this] show ?case by simp
qed

subsection \<open>Zone assignment in the dispatch loop\<close>

lemma stringRing_next_at:
  assumes "i < length zs"
  shows "stringRing_next \<lparr>index = int i, values_ring = zs\<rparr> =
           Some (zs ! i, \<lparr>index = int (Suc i mod length zs), values_ring = zs\<rparr>)"
  using assms by (simp add: stringRing_next_def zmod_int add.commute)

lemma upt_shift: "map f [0..<Suc n] = f 0 # map (\<lambda>k. f (Suc k)) [0..<n]"
proof -
  have "[0..<Suc n] = 0 # map Suc [0..<n]"
    by (simp add: upt_conv_Cons map_Suc_upt del: upt_Suc)
  then show ?thesis by (simp add: comp_def del: upt_Suc)
qed

lemma clusters_loop_ring:
  assumes "zs \<noteq> []" and "i < length zs"
  shows "clusters_loop pr \<lparr>index = int i, values_ring = zs\<rparr> cls =
           (map (\<lambda>k. ClusterTask pr
                   (if cl_Zone (cls ! k) = []
                    then (cls ! k)\<lparr>cl_Zone := zs ! ((i + unpinned_clusters (take k cls)) mod length zs)\<rparr>
                    else cls ! k))
              [0..<length cls],
            Some \<lparr>index = int ((i + unpinned_clusters cls) mod length zs), values_ring = zs\<rparr>)"
  using assms(2)
proof (induction cls arbitrary: i)
  case Nil
  then show ?case by (simp add: unpinned_clusters_def)
next
  case (Cons cl cls)
  show ?case
  proof (cases "cl_Zone cl = []")
    case True
    let ?j = "Suc i mod length zs"
    have j: "?j < length zs" using assms(1) by simp
    have m: "(?j + n) mod length zs = (i + Suc n) mod length zs" for n
      by (simp add: mod_simps)
    show ?thesis
      using True Cons.IH [OF j] stringRing_next_at [OF Cons.prems]
      by (simp add: cluster_zone_def upt_shift unpinned_clusters_def m Cons.prems
               del: upt_Suc)
  next
    case False
    show ?thesis
      using False Cons.IH [OF Cons.prems]
      by (simp add: cluster_zone_def upt_shift unpinned_clusters_def del: upt_Suc)
  qed
qed

lemma vms_loop_ring:
  assumes "zs \<noteq> []" and "i < length zs"
  shows "vms_loop pr \<lparr>index = int i, values_ring = zs\<rparr> vms =
           (map (\<lambda>k. VmTask pr
                   (if vm_Zone (vms ! k) = []
                    then (vms ! k)\<lparr>vm_Zone := zs ! ((i + unpinned_vms (take k vms)) mod length zs)\<rparr>
                    else vms ! k))
              [0..<length vms],
            Some \<lparr>index = int ((i + unpinned_vms vms) mod length zs), values_ring = zs\<rparr>)"
  using assms(2)
proof (induction vms arbitrary: i)
  case Nil
  then show ?case by (simp add: unpinned_vms_def)
next
  case (Cons vm vms)
  show ?case
  proof (cases "vm_Zone vm = []")
    case True
    let ?j = "Suc i mod length zs"
    have j: "?j < length zs" using assms(1) by simp
    have m: "(?j + n) mod length zs = (i + Suc n) mod length zs" for n
      by (simp add: mod_simps)
    show ?thesis
      using True Cons.IH [OF j] stringRing_next_at [OF Cons.prems]
      by (simp add: vm_zone_def upt_shift unpinned_vms_def m Cons.prems
               del: upt_Suc)
  next
    case False
    show ?thesis
      using False Cons.IH [OF Cons.prems]
      by (simp add: vm_zone_def upt_shift unpinned_vms_def del: upt_Suc)
  qed
qed





subsection \<open>Running out of projects\<close>

lemma lookup_popped:
  "lookup (popped t rType s t) k =
     (if k = rType then butlast (lookup (s t) rType) else lookup (s t) k)"
  by (simp add: popped_def lookup_def)

lemma butlast_shorter:
  assumes "xs \<noteq> []" and "length xs < Suc n"
  shows "length (butlast xs) < n"
  using assms by (cases xs rule: rev_cases) simp_all

lemma popped_still_over:
  assumes "lookup (s t) k \<noteq> []"
    and "length (lookup (s t) rType) < length (filter (\<lambda>sp. fst sp = rType) ((k, pc) # sps))"
  shows "length (lookup (popped t k s t) rType) < length (filter (\<lambda>sp. fst sp = rType) sps)"
proof (cases "rType = k")
  case True
  with assms(2) have "length (lookup (s t) k) < Suc (length (filter (\<lambda>sp. fst sp = k) sps))"
    by simp
  from butlast_shorter [OF assms(1) this] True show ?thesis
    by (simp add: lookup_popped)
next
  case False
  with assms(2) show ?thesis by (simp add: lookup_popped)
qed

lemma pc_body_empty:
  assumes "lookup (s t) rType = []"
  shows "pc_body c t rType pc s = (s, [], Failed RunningOutOfProject)"
  using assms by (simp add: pc_body_def popProject_def)

lemma pc_body_Done:
  assumes "pc_body c t rType pc s = (s', ts, Done)"
  shows "lookup (s t) rType \<noteq> [] \<and> s' = popped t rType s"
  using assms
  by (auto simp: pc_body_def popProject_def popped_def Let_def
           split: if_splits prod.splits option.splits)

lemma pc_body_listed:
  fixes c :: "('c, 'v) Client"
  assumes "zones_listed c" and "lookup (s t) rType \<noteq> []"
  shows "\<exists>ts. pc_body c t rType pc s = (popped t rType s, ts, Done)"
proof -
  let ?pr = "r_Name (last (lookup (s t) rType))"
  from assms(1) obtain zones where z: "zones \<noteq> []"
    and l: "gce_listZones c ?pr = (zones, None)"
    unfolding zones_listed_def by blast
  have z0: "0 < length zones" using z by simp
  let ?j = "unpinned_clusters (pc_Clusters pc) mod length zones"
  have j: "?j < length zones" using z by simp
  from clusters_loop_ring [OF z z0, of ?pr "pc_Clusters pc"]
  obtain ts1 :: "('c, 'v) task list"
    where c1: "clusters_loop ?pr (newStringRing zones) (pc_Clusters pc) =
                          (ts1, Some \<lparr>index = int ?j, values_ring = zones\<rparr>)"
    by (simp add: newStringRing_def)
  from vms_loop_ring [OF z j, of ?pr "pc_Vms pc"]
  obtain ts2 :: "('c, 'v) task list" and r2
    where c2: "vms_loop ?pr \<lparr>index = int ?j, values_ring = zones\<rparr> (pc_Vms pc) =
                             (ts2, Some r2)"
    by blast
  have "pc_body c t rType pc s = (popped t rType s, ts1 @ ts2, Done)"
    using assms(2) by (simp add: pc_body_def popProject_def popped_def Let_def l c1 c2)
  then show ?thesis by blast
qed





text \<open>A resource type with more project configs than projects ends the loop early,
  whatever the collaborators do.\<close>

lemma specs_loop_not_Done:
  assumes "length (lookup (s t) rType) < length (filter (\<lambda>sp. fst sp = rType) sps)"
  shows "snd (snd (specs_loop c t sps s)) \<noteq> Done"
  using assms
proof (induction sps arbitrary: s)
  case Nil
  then show ?case by simp
next
  case (Cons sp sps)
  obtain k pc where sp: "sp = (k, pc)" by (cases sp)
  obtain s1 ts1 st1 where b: "pc_body c t k pc s = (s1, ts1, st1)"
    by (cases "pc_body c t k pc s")
  show ?case
  proof (cases "st1 = Done")
    case False
    with b sp show ?thesis by (simp split: status.splits)
  next
    case True
    with b have bd: "pc_body c t k pc s = (s1, ts1, Done)" by simp
    from pc_body_Done [OF bd] have ne: "lookup (s t) k \<noteq> []" and s1: "s1 = popped t k s"
      by simp_all
    have "length (lookup (s1 t) rType) < length (filter (\<lambda>sp. fst sp = rType) sps)"
      using popped_still_over [where s = s and t = t, OF ne] Cons.prems by (simp add: s1 sp)
    from Cons.IH [where s = s1, OF this] show ?thesis
      by (auto simp: sp bd split: prod.splits)
  qed
qed

lemma specs_loop_exhausts:
  assumes "zones_listed c"
    and "length (lookup (s t) rType) < length (filter (\<lambda>sp. fst sp = rType) sps)"
  shows "\<exists>k s' ts. k < length sps \<and>
           specs_loop c t (take k sps) s = (s', ts, Done) \<and>
           lookup (s' t) (fst (sps ! k)) = [] \<and>
           specs_loop c t sps s = (s', ts, Failed RunningOutOfProject)"
  using assms(2)
proof (induction sps arbitrary: s)
  case Nil
  then show ?case by simp
next
  case (Cons sp sps)
  obtain k pc where sp: "sp = (k, pc)" by (cases sp)
  show ?case
  proof (cases "lookup (s t) k = []")
    case True
    have "specs_loop c t (take 0 (sp # sps)) s = (s, [], Done)" by simp
    moreover have "lookup (s t) (fst ((sp # sps) ! 0)) = []" using True sp by simp
    moreover have "specs_loop c t (sp # sps) s = (s, [], Failed RunningOutOfProject)"
      by (simp add: sp pc_body_empty [where s = s and t = t, OF True])
    ultimately show ?thesis by blast
  next
    case False
    from pc_body_listed [where s = s and t = t and pc = pc, OF assms(1) False]
    obtain ts1 where b: "pc_body c t k pc s = (popped t k s, ts1, Done)" by blast
    let ?s1 = "popped t k s"
    have "length (lookup (?s1 t) rType) < length (filter (\<lambda>sp. fst sp = rType) sps)"
      using popped_still_over [where s = s and t = t, OF False] Cons.prems by (simp add: sp)
    from Cons.IH [where s = ?s1, OF this]
    obtain j s' ts where j: "j < length sps"
      and pre: "specs_loop c t (take j sps) ?s1 = (s', ts, Done)"
      and emp: "lookup (s' t) (fst (sps ! j)) = []"
      and all: "specs_loop c t sps ?s1 = (s', ts, Failed RunningOutOfProject)"
      by blast
    have "Suc j < length (sp # sps)" using j by simp
    moreover have "specs_loop c t (take (Suc j) (sp # sps)) s = (s', ts1 @ ts, Done)"
      by (simp add: sp b pre)
    moreover have "lookup (s' t) (fst ((sp # sps) ! Suc j)) = []" using emp by simp
    moreover have "specs_loop c t (sp # sps) s = (s', ts1 @ ts, Failed RunningOutOfProject)"
      by (simp add: sp b all)
    ultimately show ?thesis by blast
  qed
qed






subsection \<open>Creations that succeed and the capacity of the channel\<close>

lemma derivedCtx_send [simp]: "derivedCtx (send m g) = derivedCtx g"
  by (simp add: derivedCtx_def send_def)

lemma derivedCtx_return_error [simp]: "derivedCtx (return_error e g) = Cancelled"
  by (simp add: derivedCtx_def return_error_def)

lemma length_send:
  "length (communication (send m g)) + blocked (send m g) =
     Suc (length (communication g) + blocked g)"
  by (simp add: send_def)

lemma send_within:
  "length (communication g) \<le> maxChannels \<Longrightarrow>
     length (communication (send m g)) \<le> maxChannels"
  by (simp add: send_def)

lemma send_room:
  "length (communication g) < maxChannels \<Longrightarrow>
     blocked (send m g) = blocked g \<and>
     length (communication (send m g)) = Suc (length (communication g))"
  by (simp add: send_def)

lemma return_error_same [simp]:
  "communication (return_error e g) = communication g"
  "blocked (return_error e g) = blocked g"
  by (simp_all add: return_error_def)

lemma sends_counted:
  assumes "length (communication g) \<le> maxChannels"
  shows "length (communication (run_tasks c ts g)) + blocked (run_tasks c ts g) =
           length (communication g) + blocked g + successes c (derivedCtx g) ts \<and>
         length (communication (run_tasks c ts g)) \<le> maxChannels"
  using assms
proof (induction ts arbitrary: g)
  case Nil
  then show ?case by simp
next
  case (Cons t ts)
  obtain i r where cr: "create_call c (derivedCtx g) t = (i, r)"
    by (cases "create_call c (derivedCtx g) t")
  show ?case
  proof (cases r)
    case None
    have g': "run_task c t g = send (task_com t i) g"
      by (simp add: run_task_alt cr None)
    from Cons.IH [OF send_within [OF Cons.prems], of "task_com t i"] length_send [of "task_com t i" g]
    show ?thesis by (simp add: g' cr None)
  next
    case (Some e)
    have g': "run_task c t g = return_error e g"
      by (simp add: run_task_alt cr Some)
    from Cons.IH [of "return_error e g"] Cons.prems
    show ?thesis by (simp add: g' cr Some)
  qed
qed

lemma no_block_few_successes:
  assumes "blocked g = 0"
    and "length (communication g) + successes c (derivedCtx g) ts \<le> maxChannels"
  shows "blocked (run_tasks c ts g) = 0"
  using assms
proof (induction ts arbitrary: g)
  case Nil
  then show ?case by simp
next
  case (Cons t ts)
  obtain i r where cr: "create_call c (derivedCtx g) t = (i, r)"
    by (cases "create_call c (derivedCtx g) t")
  show ?case
  proof (cases r)
    case None
    have g': "run_task c t g = send (task_com t i) g"
      by (simp add: run_task_alt cr None)
    have room: "length (communication g) < maxChannels"
      using Cons.prems(2) by (simp add: cr None)
    note sr = send_room [OF room, of "task_com t i"]
    have "blocked (send (task_com t i) g) = 0" using sr Cons.prems(1) by simp
    moreover have "length (communication (send (task_com t i) g)) +
                   successes c (derivedCtx (send (task_com t i) g)) ts \<le> maxChannels"
      using sr Cons.prems(2) by (simp add: cr None)
    ultimately show ?thesis using Cons.IH [of "send (task_com t i) g"] by (simp add: g')
  next
    case (Some e)
    have g': "run_task c t g = return_error e g"
      by (simp add: run_task_alt cr Some)
    from Cons.IH [of "return_error e g"] Cons.prems
    show ?thesis by (simp add: g' cr Some)
  qed
qed

lemma successes_all_ok:
  assumes "\<forall>t \<in> set ts. snd (create_call c x t) = None"
  shows "successes c x (ts @ rest) = length ts + successes c x rest"
  using assms by (induction ts) simp_all

subsection \<open>The entries of a returned inventory\<close>

lemma pinned_vms_dispatch:
  assumes "\<forall>vm \<in> set vms. vm_Zone vm \<noteq> []"
  shows "snd (rc_loop fake_client 0 [(''pool-X'', [\<lparr>pc_Clusters = [], pc_Vms = vms\<rparr>])] one_project) =
           (map (VmTask ''proj-1'') vms, Done)"
  by (simp add: pc_body_def popProject_def lookup_def one_project_def fake_client_def
        vms_loop_pinned [OF assms])

lemma inventory_entries:
  assumes "rearranges sched"
    and r: "snd (construct (Some client) marshal sched rc types s) =
               (started, Returns (Some userData) (Some info) None)"
  shows "dom info = task_project ` set started \<and>
          inventory_size info = length started \<and>
          (\<forall>pr \<in> task_project ` set started.
             info pr = Some \<lparr>Clusters = created_clusters client pr (sched started),
                              VMs = created_vms client pr (sched started)\<rparr>)"
proof (intro conjI)
  let ?g = "run_tasks client (sched started) group_init"
  note w = construct_inventory(2) [OF r] and a = construct_inventory(3) [OF r]
  from w have e: "gerr ?g = None" and b: "blocked ?g = 0"
    by (auto simp: errGroup_Wait_def split: if_splits)
  from settled_run_tasks [OF e b]
  have sent: "map p (communication ?g) = map task_project (sched started)"
    by (simp add: group_init_def)
  from settled_messages [OF e b]
  have msgs: "communication ?g =
                map (\<lambda>t. task_com t (fst (create_call client Live t))) (sched started)"
    by (simp add: group_init_def)
  from aggregate_dom_size [OF a]
  have "dom info = p ` set (communication ?g)"
    and sz: "inventory_size info = length (communication ?g)"
    by simp_all
  moreover have "p ` set (communication ?g) = task_project ` set started"
    using arg_cong [OF sent, of set] by (simp add: rearranges_set [OF assms(1)])
  ultimately show "dom info = task_project ` set started" by simp
  have "length (communication ?g) = length started"
    using arg_cong [OF sent, of length] by (simp add: rearranges_length [OF assms(1)])
  with sz show "inventory_size info = length started" by simp
  from a have "aggregate (map (\<lambda>t. task_com t (fst (create_call client Live t))) (sched started))
                 Map.empty = Some info"
    by (simp add: msgs)
  from aggregate_entries [OF this]
  show "\<forall>pr \<in> task_project ` set started.
          info pr = Some \<lparr>Clusters = created_clusters client pr (sched started),
                           VMs = created_vms client pr (sched started)\<rparr>"
    by (simp add: rearranges_set [OF assms(1)] entry_of_def)
qed

subsection \<open>The dispatch loop assigns the zones of the specification\<close>








subsection \<open>The capacity of the result channel\<close>

text \<open>
  C1, as stated, fails: the channel is made with the constant capacity
  \<open>maxChannels\<close>, whatever the number of tasks. With 101 cluster specs (zones pinned,
  every creation succeeding) 101 tasks are started, more than the capacity, the 101st
  send blocks, and \<^verbatim>\<open>construct\<close> never returns.
\<close>

theorem capacity_counterexample:
  "\<not> length (fst (snd (construct (Some fake_client) fake_marshal fifo
        [(''pool-X'', [\<lparr>pc_Clusters = replicate 101 \<lparr>cl_Zone = ''us-a''\<rparr>, pc_Vms = []\<rparr>])]
        0 one_project))) \<le> maxChannels \<and>
   snd (snd (construct (Some fake_client) fake_marshal fifo
        [(''pool-X'', [\<lparr>pc_Clusters = replicate 101 \<lparr>cl_Zone = ''us-a''\<rparr>, pc_Vms = []\<rparr>])]
        0 one_project)) = Hangs"
proof -
  let ?cls = "replicate 101 (\<lparr>cl_Zone = ''us-a''\<rparr> :: clusterConfig)"
  let ?rc = "[(''pool-X'', [\<lparr>pc_Clusters = ?cls, pc_Vms = []\<rparr>])]"
  have d: "snd (rc_loop fake_client 0 ?rc one_project) = (map (ClusterTask ''proj-1'') ?cls, Done)"
    by (rule pinned_clusters_dispatch) simp
  have ok: "\<forall>t \<in> set (fifo (map (ClusterTask ''proj-1'') ?cls)). \<forall>x. snd (create_call fake_client x t) = None"
    by (simp add: fifo_def fake_client_def fake_gke_create_def)
  have big: "maxChannels < length (fifo (map (ClusterTask ''proj-1'') ?cls))"
    by (simp add: fifo_def maxChannels_def)
  have h: "snd (snd (construct (Some fake_client) fake_marshal fifo ?rc 0 one_project)) = Hangs"
    using hangs_beyond_capacity [where sched = fifo, OF d ok big] .
  have "fst (snd (construct (Some fake_client) fake_marshal fifo ?rc 0 one_project)) =
          map (ClusterTask ''proj-1'') ?cls"
    by (simp add: construct_Done [OF d])
  then show ?thesis using h by (simp add: maxChannels_def)
qed

text \<open>
  C1, amended. The capacity is the constant 100: in every run that enqueues at most
  100 tasks the capacity is at least the number of enqueued tasks, no producer blocks
  on sending, whatever the order of completion, and \<^verbatim>\<open>construct\<close> does not wait for
  ever.
\<close>

theorem no_blocking_up_to_capacity:
  assumes "rearranges sched"
    and "fst (snd (construct (Some client) marshal sched rc types s)) = started"
    and "length started \<le> 100"
  shows "length started \<le> maxChannels \<and>
         blocked (run_tasks client (sched started) group_init) = 0 \<and>
         snd (snd (construct (Some client) marshal sched rc types s)) \<noteq> Hangs"
proof -
  let ?g = "run_tasks client (sched started) group_init"
  have cap: "length started \<le> maxChannels" using assms(3) by (simp add: maxChannels_def)
  have "length (communication group_init) + length (sched started) \<le> maxChannels"
    using cap assms(1) by (simp add: group_init_def rearranges_length)
  from room_run_tasks [OF this, of client]
  have b: "blocked ?g = 0" by (simp add: group_init_def)
  obtain started' st where d: "snd (rc_loop client types rc s) = (started', st)"
    by (cases "snd (rc_loop client types rc s)")
  have "snd (snd (construct (Some client) marshal sched rc types s)) \<noteq> Hangs"
  proof (cases "st = Done")
    case True
    with d have dd: "snd (rc_loop client types rc s) = (started', Done)" by simp
    have "started' = started"
      using assms(2) by (simp add: construct_Done [OF dd])
    with b have "errGroup_Wait (run_tasks client (sched started') group_init) =
                   Some (gerr (run_tasks client (sched started') group_init))"
      by (simp add: errGroup_Wait_def)
    then show ?thesis
      by (simp add: construct_Done [OF dd] Let_def split: option.splits sum.splits)
  next
    case False
    then show ?thesis
      by (simp add: construct_not_Done [OF d False] split: status.splits)
  qed
  with cap b show ?thesis by (intro conjI)
qed

theorem no_blocking_witness:
  "rearranges (rev :: (unit, unit) task list \<Rightarrow> (unit, unit) task list) \<and>
   fst (snd (construct (Some fake_client) fake_marshal rev
      [(''pool-X'', [\<lparr>pc_Clusters = [\<lparr>cl_Zone = ''''\<rparr>], pc_Vms = [\<lparr>vm_Zone = ''''\<rparr>]\<rparr>])]
      0 one_project)) =
     [ClusterTask ''proj-1'' \<lparr>cl_Zone = ''us-a''\<rparr>, VmTask ''proj-1'' \<lparr>vm_Zone = ''us-b''\<rparr>] \<and>
   blocked (run_tasks fake_client
      (rev [ClusterTask ''proj-1'' \<lparr>cl_Zone = ''us-a''\<rparr>, VmTask ''proj-1'' \<lparr>vm_Zone = ''us-b''\<rparr>])
      group_init) = 0 \<and>
   snd (snd (construct (Some fake_client) fake_marshal rev
      [(''pool-X'', [\<lparr>pc_Clusters = [\<lparr>cl_Zone = ''''\<rparr>], pc_Vms = [\<lparr>vm_Zone = ''''\<rparr>]\<rparr>])]
      0 one_project)) \<noteq> Hangs"
proof -
  let ?rc = "[(''pool-X'', [\<lparr>pc_Clusters = [\<lparr>cl_Zone = ''''\<rparr>], pc_Vms = [\<lparr>vm_Zone = ''''\<rparr>]\<rparr>])]
               :: (unit, unit) resourceConfigs"
  let ?ts = "[ClusterTask ''proj-1'' \<lparr>cl_Zone = ''us-a''\<rparr>, VmTask ''proj-1'' \<lparr>vm_Zone = ''us-b''\<rparr>]
               :: (unit, unit) task list"
  have r: "rearranges (rev :: (unit, unit) task list \<Rightarrow> (unit, unit) task list)"
    by (simp add: rearranges_def)
  have f: "fst (snd (construct (Some fake_client) fake_marshal rev ?rc 0 one_project)) = ?ts"
    by (simp add: run_simps)
  have l: "length ?ts \<le> 100" by simp
  note t = no_blocking_up_to_capacity [OF r f l]
  have "blocked (run_tasks fake_client (rev ?ts) group_init) = 0"
    using t by (rule conjunct1 [OF conjunct2])
  moreover have "snd (snd (construct (Some fake_client) fake_marshal rev ?rc 0 one_project)) \<noteq> Hangs"
    using t by (rule conjunct2 [OF conjunct2])
  ultimately show ?thesis using r f by (intro conjI)
qed

subsection \<open>The caller's pool\<close>

text \<open>
  C2 does not hold of the code. \<^verbatim>\<open>typesCopy := types\<close> copies the reference to the map
  object (the comment above it says \<^verbatim>\<open>Copy\<close>), so every pop shortens the slice in the
  caller's own map. With one project under \<open>pool-X\<close> and one project config, the run
  succeeds, and the caller's map, which held \<open>proj-1\<close> under \<open>pool-X\<close> before the call,
  holds no project there afterwards.
\<close>

theorem caller_map_mutated:
  "lookup (one_project 0) ''pool-X'' = [\<lparr>r_Name = ''proj-1''\<rparr>] \<and>
   lookup (fst (construct (Some fake_client) fake_marshal fifo
      [(''pool-X'', [\<lparr>pc_Clusters = [\<lparr>cl_Zone = ''''\<rparr>], pc_Vms = []\<rparr>])] 0 one_project) 0)
      ''pool-X'' = [] \<and>
   snd (snd (construct (Some fake_client) fake_marshal fifo
      [(''pool-X'', [\<lparr>pc_Clusters = [\<lparr>cl_Zone = ''''\<rparr>], pc_Vms = []\<rparr>])] 0 one_project)) =
     Returns (Some [ResourceConfigType \<mapsto> ''inventory''])
       (Some [''proj-1'' \<mapsto> \<lparr>Clusters = [\<lparr>Name = ''cluster'', Zone = ''us-a''\<rparr>], VMs = []\<rparr>])
       None"
  by (simp add: run_simps)

subsection \<open>The first error\<close>

text \<open>
  C3, as stated, fails, in two ways. With 101 creations that succeed and one that
  fails, ending in the order started, one producer stands blocked in its send for
  ever, the group never settles, and \<^verbatim>\<open>construct\<close> does not return at all. And with two
  project configs for a pool of one project, the first with a cluster whose creation
  fails, the task is started and fails, but the dispatch loop has returned the error
  of the empty pool before \<^verbatim>\<open>errGroup.Wait\<close> is reached.
\<close>

theorem first_error_counterexample:
  "snd (create_call fake_client Live (ClusterTask ''proj-1'' \<lparr>cl_Zone = ''bad''\<rparr>)) =
     Some (External ''create failed'') \<and>
   snd (construct (Some fake_client) fake_marshal fifo
        [(''pool-X'', [\<lparr>pc_Clusters = replicate 101 \<lparr>cl_Zone = ''us-a''\<rparr> @ [\<lparr>cl_Zone = ''bad''\<rparr>],
                        pc_Vms = []\<rparr>])]
        0 one_project) =
     (replicate 101 (ClusterTask ''proj-1'' \<lparr>cl_Zone = ''us-a''\<rparr>) @
        [ClusterTask ''proj-1'' \<lparr>cl_Zone = ''bad''\<rparr>], Hangs) \<and>
   snd (construct (Some fake_client) fake_marshal fifo
        [(''pool-X'', [\<lparr>pc_Clusters = [\<lparr>cl_Zone = ''bad''\<rparr>], pc_Vms = []\<rparr>,
                        \<lparr>pc_Clusters = [], pc_Vms = []\<rparr>])]
        0 one_project) =
     ([ClusterTask ''proj-1'' \<lparr>cl_Zone = ''bad''\<rparr>],
      Returns None None (Some RunningOutOfProject))"
proof -
  let ?good = "replicate 101 (\<lparr>cl_Zone = ''us-a''\<rparr> :: clusterConfig)"
  let ?cls = "?good @ [\<lparr>cl_Zone = ''bad''\<rparr>]"
  let ?rc = "[(''pool-X'', [\<lparr>pc_Clusters = ?cls, pc_Vms = []\<rparr>])] :: (unit, unit) resourceConfigs"
  let ?pre = "map (ClusterTask ''proj-1'') ?good :: (unit, unit) task list"
  let ?bad = "ClusterTask ''proj-1'' \<lparr>cl_Zone = ''bad''\<rparr> :: (unit, unit) task"
  have d: "snd (rc_loop fake_client 0 ?rc one_project) = (map (ClusterTask ''proj-1'') ?cls, Done)"
    by (rule pinned_clusters_dispatch) auto
  have ok: "\<forall>t \<in> set ?pre. \<forall>x. snd (create_call fake_client x t) = None"
    by (simp add: fake_client_def fake_gke_create_def)
  have "length (communication group_init) \<le> maxChannels" by (simp add: group_init_def)
  from count_run_tasks [OF ok this]
  have "length (communication (run_tasks fake_client ?pre group_init)) +
          blocked (run_tasks fake_client ?pre group_init) = 101"
    and "length (communication (run_tasks fake_client ?pre group_init)) \<le> maxChannels"
    by (simp_all add: group_init_def)
  then have "0 < blocked (run_tasks fake_client ?pre group_init)"
    by (simp add: maxChannels_def)
  also have "\<dots> \<le> blocked (run_tasks fake_client [?bad] (run_tasks fake_client ?pre group_init))"
    by (rule blocked_run_tasks)
  finally have "blocked (run_tasks fake_client (?pre @ [?bad]) group_init) \<noteq> 0"
    by (simp add: run_tasks_append)
  then have "errGroup_Wait (run_tasks fake_client (fifo (map (ClusterTask ''proj-1'') ?cls)) group_init) = None"
    by (simp add: errGroup_Wait_def fifo_def)
  then have "snd (construct (Some fake_client) fake_marshal fifo ?rc 0 one_project) =
               (map (ClusterTask ''proj-1'') ?cls, Hangs)"
    by (simp add: construct_Done [OF d] Let_def)
  moreover have "snd (create_call fake_client Live ?bad) = Some (External ''create failed'')"
    by (simp add: fake_client_def fake_gke_create_def)
  moreover have "snd (construct (Some fake_client) fake_marshal fifo
        [(''pool-X'', [\<lparr>pc_Clusters = [\<lparr>cl_Zone = ''bad''\<rparr>], pc_Vms = []\<rparr>,
                        \<lparr>pc_Clusters = [], pc_Vms = []\<rparr>])]
        0 one_project) =
     ([ClusterTask ''proj-1'' \<lparr>cl_Zone = ''bad''\<rparr>],
      Returns None None (Some RunningOutOfProject))"
    by (simp add: run_simps)
  ultimately show ?thesis by simp
qed

text \<open>
  C3, amended. In every run whose dispatch loop runs through (every task is handed to
  the group and \<^verbatim>\<open>errGroup.Wait\<close> is reached), in which at most \<open>maxChannels\<close> creation
  calls return without error, and in which a task fails, \<^verbatim>\<open>construct\<close> returns the
  error of the first task to fail in the order of completion, which is the error its
  creation call returned while the context was still live (no sibling had failed),
  and it returns neither user data nor inventory. (Every run in which the group
  records an error has such a first task, see \<open>first_failure_from\<close>.) An instance is
  the run of 100 creations that succeed and one that fails.
\<close>

theorem first_error_no_inventory:
  assumes "snd (rc_loop client types rc s) = (started, Done)"
    and "successes client Live (sched started) \<le> maxChannels"
    and "sched started = before @ t # after"
    and "\<forall>u \<in> set before. snd (create_call client Live u) = None"
    and "snd (create_call client Live t) = Some e"
  shows "snd (construct (Some client) marshal sched rc types s) =
           (started, Returns None None (Some e))"
proof -
  let ?g = "run_tasks client (sched started) group_init"
  have "blocked ?g = 0"
    using assms(2)
    by (intro no_block_few_successes) (simp_all add: group_init_def derivedCtx_def)
  moreover have "gerr ?g = Some e"
    using first_error_recorded [OF assms(4,5)] by (simp add: assms(3))
  ultimately have "errGroup_Wait ?g = Some (Some e)" by (simp add: errGroup_Wait_def)
  then show ?thesis by (simp add: construct_Done [OF assms(1)] Let_def)
qed

theorem first_error_witness:
  "snd (construct (Some fake_client) fake_marshal fifo
      [(''pool-X'', [\<lparr>pc_Clusters = replicate 100 \<lparr>cl_Zone = ''us-a''\<rparr> @ [\<lparr>cl_Zone = ''bad''\<rparr>],
                      pc_Vms = []\<rparr>])]
      0 one_project) =
     (replicate 100 (ClusterTask ''proj-1'' \<lparr>cl_Zone = ''us-a''\<rparr>) @
        [ClusterTask ''proj-1'' \<lparr>cl_Zone = ''bad''\<rparr>],
      Returns None None (Some (External ''create failed'')))"
proof -
  let ?good = "replicate 100 (\<lparr>cl_Zone = ''us-a''\<rparr> :: clusterConfig)"
  let ?cls = "?good @ [\<lparr>cl_Zone = ''bad''\<rparr>]"
  let ?rc = "[(''pool-X'', [\<lparr>pc_Clusters = ?cls, pc_Vms = []\<rparr>])] :: (unit, unit) resourceConfigs"
  let ?pre = "map (ClusterTask ''proj-1'') ?good :: (unit, unit) task list"
  let ?bad = "ClusterTask ''proj-1'' \<lparr>cl_Zone = ''bad''\<rparr> :: (unit, unit) task"
  have d: "snd (rc_loop fake_client 0 ?rc one_project) = (?pre @ [?bad], Done)"
    using pinned_clusters_dispatch [of ?cls] by simp
  have ok: "\<forall>u \<in> set ?pre. snd (create_call fake_client Live u) = None"
    by (simp add: fake_client_def fake_gke_create_def)
  have f: "snd (create_call fake_client Live ?bad) = Some (External ''create failed'')"
    by (simp add: fake_client_def fake_gke_create_def)
  have o: "fifo (?pre @ [?bad]) = ?pre @ ?bad # []" by (simp add: fifo_def)
  have n: "successes fake_client Live (fifo (?pre @ [?bad])) \<le> maxChannels"
    using successes_all_ok [OF ok, of "[?bad]"] f
    by (simp add: fifo_def maxChannels_def)
  from first_error_no_inventory [where sched = fifo and marshal = fake_marshal, OF d n o ok f]
  show ?thesis by simp
qed

subsection \<open>Pool exhaustion\<close>




subsection \<open>Completeness of the aggregation\<close>

text \<open>
  C5, as stated, fails: a run in which all creation tasks succeed need not result in
  any inventory. With 101 VM specs (zones pinned) every one of the 101 creation calls
  returns an instance and no error, but the channel holds 100 results, the 101st send
  blocks, \<^verbatim>\<open>errGroup.Wait\<close> never returns, the aggregation is never reached, and
  \<^verbatim>\<open>construct\<close> returns no \<^verbatim>\<open>ResourceInfo\<close> at all.
\<close>

theorem aggregation_counterexample:
  "map (create_call fake_client Live) (replicate 101 (VmTask ''proj-1'' \<lparr>vm_Zone = ''us-a''\<rparr>)) =
     replicate 101 (Some \<lparr>Name = ''vm'', Zone = ''us-a''\<rparr>, None) \<and>
   snd (construct (Some fake_client) fake_marshal fifo
        [(''pool-X'', [\<lparr>pc_Clusters = [], pc_Vms = replicate 101 \<lparr>vm_Zone = ''us-a''\<rparr>\<rparr>])]
        0 one_project) =
     (replicate 101 (VmTask ''proj-1'' \<lparr>vm_Zone = ''us-a''\<rparr>), Hangs)"
proof -
  let ?vms = "replicate 101 (\<lparr>vm_Zone = ''us-a''\<rparr> :: virtualMachineConfig)"
  let ?rc = "[(''pool-X'', [\<lparr>pc_Clusters = [], pc_Vms = ?vms\<rparr>])] :: (unit, unit) resourceConfigs"
  have d: "snd (rc_loop fake_client 0 ?rc one_project) = (map (VmTask ''proj-1'') ?vms, Done)"
    by (rule pinned_vms_dispatch) simp
  have ok: "\<forall>t \<in> set (fifo (map (VmTask ''proj-1'') ?vms)). \<forall>x. snd (create_call fake_client x t) = None"
    by (simp add: fifo_def fake_client_def fake_gce_create_def)
  have big: "maxChannels < length (fifo (map (VmTask ''proj-1'') ?vms))"
    by (simp add: fifo_def maxChannels_def)
  have h: "snd (snd (construct (Some fake_client) fake_marshal fifo ?rc 0 one_project)) = Hangs"
    using hangs_beyond_capacity [where sched = fifo, OF d ok big] .
  have "fst (snd (construct (Some fake_client) fake_marshal fifo ?rc 0 one_project)) =
          map (VmTask ''proj-1'') ?vms"
    by (simp add: construct_Done [OF d])
  with h have "snd (construct (Some fake_client) fake_marshal fifo ?rc 0 one_project) =
     (map (VmTask ''proj-1'') ?vms, Hangs)"
    by (simp add: prod_eq_iff)
  moreover have "map (create_call fake_client Live) (replicate 101 (VmTask ''proj-1'' \<lparr>vm_Zone = ''us-a''\<rparr>)) =
     replicate 101 (Some \<lparr>Name = ''vm'', Zone = ''us-a''\<rparr>, None)"
    by (simp add: fake_client_def fake_gce_create_def)
  ultimately show ?thesis by simp
qed

text \<open>
  C5, amended. For every run in which the dispatch loop runs through with at most
  \<open>maxChannels\<close> tasks, every creation call returns an instance and no error, and the
  encoder of the user data succeeds, \<^verbatim>\<open>construct\<close> returns an inventory, and that
  inventory has an entry for exactly the projects of the dispatched tasks (one entry
  per project, the inventory being a map keyed by the project); the number of clusters
  plus VMs across all entries equals the number of dispatched tasks; and the entry of a
  project lists, under clusters and under VMs, the instances created by the cluster
  tasks and the VM tasks of that project, in the order in which the tasks came to
  their end. This holds for every order of completion. The second part shows the same
  three properties for every inventory that \<^verbatim>\<open>construct\<close> returns at all.
\<close>

theorem aggregation_complete:
  assumes "rearranges sched"
  shows "(snd (rc_loop client types rc s) = (started, Done) \<and>
          length started \<le> maxChannels \<and>
          (\<forall>t \<in> set started. \<exists>i. create_call client Live t = (Some i, None)) \<and>
          (\<forall>inventory. \<exists>enc. marshal inventory = Inr enc) \<longrightarrow>
          (\<exists>userData info.
             snd (construct (Some client) marshal sched rc types s) =
               (started, Returns (Some userData) (Some info) None) \<and>
             dom info = task_project ` set started \<and>
             inventory_size info = length started \<and>
             (\<forall>pr \<in> task_project ` set started.
                info pr = Some \<lparr>Clusters = created_clusters client pr (sched started),
                                 VMs = created_vms client pr (sched started)\<rparr>))) \<and>
         (snd (construct (Some client) marshal sched rc types s) =
            (started, Returns (Some userData) (Some info) None) \<longrightarrow>
          dom info = task_project ` set started \<and>
          inventory_size info = length started \<and>
          (\<forall>pr \<in> task_project ` set started.
             info pr = Some \<lparr>Clusters = created_clusters client pr (sched started),
                              VMs = created_vms client pr (sched started)\<rparr>))"
proof (intro conjI impI)
  assume h: "snd (rc_loop client types rc s) = (started, Done) \<and>
          length started \<le> maxChannels \<and>
          (\<forall>t \<in> set started. \<exists>i. create_call client Live t = (Some i, None)) \<and>
          (\<forall>inventory. \<exists>enc. marshal inventory = Inr enc)"
  then obtain userData' info' where
    r: "snd (construct (Some client) marshal sched rc types s) =
                 (started, Returns (Some userData') (Some info') None)"
    using inventory_returned [OF assms] by blast
  from inventory_entries [OF assms r] r
  show "\<exists>userData info.
             snd (construct (Some client) marshal sched rc types s) =
               (started, Returns (Some userData) (Some info) None) \<and>
             dom info = task_project ` set started \<and>
             inventory_size info = length started \<and>
             (\<forall>pr \<in> task_project ` set started.
                info pr = Some \<lparr>Clusters = created_clusters client pr (sched started),
                                 VMs = created_vms client pr (sched started)\<rparr>)"
    by blast
next
  assume r: "snd (construct (Some client) marshal sched rc types s) =
               (started, Returns (Some userData) (Some info) None)"
  from inventory_entries [OF assms r]
  show "dom info = task_project ` set started"
    and "inventory_size info = length started"
    and "\<forall>pr \<in> task_project ` set started.
          info pr = Some \<lparr>Clusters = created_clusters client pr (sched started),
                           VMs = created_vms client pr (sched started)\<rparr>"
    by blast+
qed

theorem aggregation_complete_witness:
  "snd (construct (Some fake_client) fake_marshal rev
      [(''pool-X'', [\<lparr>pc_Clusters = [\<lparr>cl_Zone = []\<rparr>, \<lparr>cl_Zone = ''eu-x''\<rparr>],
                      pc_Vms = [\<lparr>vm_Zone = []\<rparr>]\<rparr>])]
      0 one_project) =
     ([ClusterTask ''proj-1'' \<lparr>cl_Zone = ''us-a''\<rparr>, ClusterTask ''proj-1'' \<lparr>cl_Zone = ''eu-x''\<rparr>,
       VmTask ''proj-1'' \<lparr>vm_Zone = ''us-b''\<rparr>],
      Returns (Some [ResourceConfigType \<mapsto> ''inventory''])
        (Some [''proj-1'' \<mapsto>
           \<lparr>Clusters = [\<lparr>Name = ''cluster'', Zone = ''eu-x''\<rparr>, \<lparr>Name = ''cluster'', Zone = ''us-a''\<rparr>],
            VMs = [\<lparr>Name = ''vm'', Zone = ''us-b''\<rparr>]\<rparr>]) None) \<and>
   dom [''proj-1'' \<mapsto>
           \<lparr>Clusters = [\<lparr>Name = ''cluster'', Zone = ''eu-x''\<rparr>, \<lparr>Name = ''cluster'', Zone = ''us-a''\<rparr>],
            VMs = [\<lparr>Name = ''vm'', Zone = ''us-b''\<rparr>]\<rparr>] = {''proj-1''} \<and>
   inventory_size [''proj-1'' \<mapsto>
           \<lparr>Clusters = [\<lparr>Name = ''cluster'', Zone = ''eu-x''\<rparr>, \<lparr>Name = ''cluster'', Zone = ''us-a''\<rparr>],
            VMs = [\<lparr>Name = ''vm'', Zone = ''us-b''\<rparr>]\<rparr>] = 3"
proof -
  let ?rc = "[(''pool-X'', [\<lparr>pc_Clusters = [\<lparr>cl_Zone = []\<rparr>, \<lparr>cl_Zone = ''eu-x''\<rparr>],
                      pc_Vms = [\<lparr>vm_Zone = []\<rparr>]\<rparr>])] :: (unit, unit) resourceConfigs"
  let ?ts = "[ClusterTask ''proj-1'' \<lparr>cl_Zone = ''us-a''\<rparr>, ClusterTask ''proj-1'' \<lparr>cl_Zone = ''eu-x''\<rparr>,
       VmTask ''proj-1'' \<lparr>vm_Zone = ''us-b''\<rparr>] :: (unit, unit) task list"
  let ?inv = "[''proj-1'' \<mapsto>
           \<lparr>Clusters = [\<lparr>Name = ''cluster'', Zone = ''eu-x''\<rparr>, \<lparr>Name = ''cluster'', Zone = ''us-a''\<rparr>],
            VMs = [\<lparr>Name = ''vm'', Zone = ''us-b''\<rparr>]\<rparr>]"
  have r: "rearranges (rev :: (unit, unit) task list \<Rightarrow> (unit, unit) task list)"
    by (simp add: rearranges_def)
  have h: "snd (construct (Some fake_client) fake_marshal rev ?rc 0 one_project) =
             (?ts, Returns (Some [ResourceConfigType \<mapsto> ''inventory'']) (Some ?inv) None)"
    by (simp add: run_simps)
  have d: "snd (rc_loop fake_client 0 ?rc one_project) = (?ts, Done)"
    by (simp add: run_simps)
  have n: "length ?ts \<le> maxChannels"
    by (simp add: maxChannels_def)
  have ok: "\<forall>t \<in> set ?ts. \<exists>i. create_call fake_client Live t = (Some i, None)"
    by (simp add: fake_client_def fake_gke_create_def fake_gce_create_def)
  have m: "\<forall>inventory. \<exists>enc. fake_marshal inventory = Inr enc"
    by (simp add: fake_marshal_def)
  note t = aggregation_complete [OF r, where client = fake_client and marshal = fake_marshal
      and rc = ?rc and types = 0 and s = one_project and started = ?ts]
  from t [THEN conjunct1, THEN mp, OF conjI [OF d conjI [OF n conjI [OF ok m]]]]
  obtain userData info where
    c: "snd (construct (Some fake_client) fake_marshal rev ?rc 0 one_project) =
          (?ts, Returns (Some userData) (Some info) None)"
    and dm: "dom info = task_project ` set ?ts"
    and sz: "inventory_size info = length ?ts"
    by blast
  from c h have "info = ?inv" by simp
  with dm sz have "dom ?inv = {''proj-1''}" and "inventory_size ?inv = 3"
    by simp_all
  with h show ?thesis by (intro conjI)
qed

subsection \<open>Variants of a message\<close>

text \<open>
  C10, as stated, fails: \<^verbatim>\<open>construct\<close> puts the info returned by the creation call
  into the message without looking at it. With a cluster creation that returns a nil
  info and a nil error, the message on the channel has neither variant set, the else
  branch of the aggregation loop dereferences the nil \<^verbatim>\<open>vmi\<close>, and \<^verbatim>\<open>construct\<close>
  panics.
\<close>

theorem neither_variant_counterexample:
  "communication (run_tasks nil_client [ClusterTask ''proj-1'' \<lparr>cl_Zone = ''us-a''\<rparr>] group_init) =
     [\<lparr>p = ''proj-1'', ci = None, vmi = None\<rparr>] \<and>
   aggregate [\<lparr>p = ''proj-1'', ci = None, vmi = None\<rparr>] Map.empty = None \<and>
   snd (construct (Some nil_client) fake_marshal fifo
      [(''pool-X'', [\<lparr>pc_Clusters = [\<lparr>cl_Zone = ''''\<rparr>], pc_Vms = []\<rparr>])] 0 one_project) =
     ([ClusterTask ''proj-1'' \<lparr>cl_Zone = ''us-a''\<rparr>], Panics)"
  by (simp add: run_simps nil_client_def)

text \<open>
  C10, amended. No message on the result channel has both variants set. When every
  creation call that returns a nil error returns a non-nil info, every message has
  exactly one of \<^verbatim>\<open>ci\<close> and \<^verbatim>\<open>vmi\<close> set, whatever tasks ran and in whatever order; the
  aggregation loop then never dereferences a nil \<^verbatim>\<open>vmi\<close>, and a call of \<^verbatim>\<open>construct\<close>
  whose dispatch loop ran through does not panic.
\<close>

theorem one_variant_on_channel:
  "(\<forall>m \<in> set (communication (run_tasks client ts group_init)). ci m = None \<or> vmi m = None) \<and>
   (creators_return_info_or_error client \<longrightarrow>
      (\<forall>m \<in> set (communication (run_tasks client ts group_init)).
         (ci m = None) \<noteq> (vmi m = None)) \<and>
      aggregate (communication (run_tasks client ts group_init)) Map.empty \<noteq> None \<and>
      (snd (snd (rc_loop client types rc s)) = Done \<longrightarrow>
         snd (snd (construct (Some client) marshal sched rc types s)) \<noteq> Panics))"
proof (intro conjI impI)
  show "\<forall>m \<in> set (communication (run_tasks client ts group_init)). ci m = None \<or> vmi m = None"
    by (rule never_both_run_tasks) (simp add: group_init_def)
next
  assume c: "creators_return_info_or_error client"
  have inv: "\<forall>m \<in> set (communication (run_tasks client us group_init)).
               (ci m = None) \<noteq> (vmi m = None)" for us
    by (rule one_variant_run_tasks [OF c]) (simp add: group_init_def)
  show "\<forall>m \<in> set (communication (run_tasks client ts group_init)).
          (ci m = None) \<noteq> (vmi m = None)"
    by (rule inv)
  show "aggregate (communication (run_tasks client ts group_init)) Map.empty \<noteq> None"
    by (rule aggregate_one_variant [OF inv])
  assume h: "snd (snd (rc_loop client types rc s)) = Done"
  obtain started where d: "snd (rc_loop client types rc s) = (started, Done)"
    using h by (cases "snd (rc_loop client types rc s)") auto
  have "aggregate (communication (run_tasks client (sched started) group_init)) Map.empty \<noteq> None"
    by (rule aggregate_one_variant [OF inv])
  then show "snd (snd (construct (Some client) marshal sched rc types s)) \<noteq> Panics"
    by (auto simp: construct_Done [OF d] Let_def split: option.splits sum.splits)
qed

theorem one_variant_witness:
  "communication (run_tasks fake_client
      [ClusterTask ''proj-1'' \<lparr>cl_Zone = ''us-a''\<rparr>, VmTask ''proj-1'' \<lparr>vm_Zone = ''us-b''\<rparr>]
      group_init) =
     [\<lparr>p = ''proj-1'', ci = Some \<lparr>Name = ''cluster'', Zone = ''us-a''\<rparr>, vmi = None\<rparr>,
      \<lparr>p = ''proj-1'', ci = None, vmi = Some \<lparr>Name = ''vm'', Zone = ''us-b''\<rparr>\<rparr>] \<and>
   aggregate (communication (run_tasks fake_client
      [ClusterTask ''proj-1'' \<lparr>cl_Zone = ''us-a''\<rparr>, VmTask ''proj-1'' \<lparr>vm_Zone = ''us-b''\<rparr>]
      group_init)) Map.empty \<noteq> None"
proof -
  have c: "creators_return_info_or_error fake_client" by (rule fake_client_contract)
  have e: "communication (run_tasks fake_client
      [ClusterTask ''proj-1'' \<lparr>cl_Zone = ''us-a''\<rparr>, VmTask ''proj-1'' \<lparr>vm_Zone = ''us-b''\<rparr>]
      group_init) =
     [\<lparr>p = ''proj-1'', ci = Some \<lparr>Name = ''cluster'', Zone = ''us-a''\<rparr>, vmi = None\<rparr>,
      \<lparr>p = ''proj-1'', ci = None, vmi = Some \<lparr>Name = ''vm'', Zone = ''us-b''\<rparr>\<rparr>]"
    by (simp add: run_simps)
  note t = one_variant_on_channel [where client = fake_client
      and ts = "[ClusterTask ''proj-1'' \<lparr>cl_Zone = ''us-a''\<rparr>, VmTask ''proj-1'' \<lparr>vm_Zone = ''us-b''\<rparr>]"
      and types = 0 and rc = "[]" and s = one_project and marshal = fake_marshal and sched = fifo,
      THEN conjunct2, THEN mp, OF c]
  have "aggregate (communication (run_tasks fake_client
      [ClusterTask ''proj-1'' \<lparr>cl_Zone = ''us-a''\<rparr>, VmTask ''proj-1'' \<lparr>vm_Zone = ''us-b''\<rparr>]
      group_init)) Map.empty \<noteq> None"
    using t by (rule conjunct1 [OF conjunct2])
  with e show ?thesis by (intro conjI)
qed

subsection \<open>Zone assignment\<close>



subsection \<open>The ring over an empty zone list\<close>

text \<open>
  C8 does not hold of the code. \<^verbatim>\<open>newStringRing\<close> builds a ring from the empty list
  without failing, \<^verbatim>\<open>construct\<close> does not look at the length of the zone list, and the
  first \<^verbatim>\<open>next()\<close> reads \<^verbatim>\<open>r.values[0]\<close> of an empty slice: with a project that has no
  zone and one cluster spec without a zone, \<^verbatim>\<open>construct\<close> panics before any task is
  started. (On a ring over a non-empty list the cursor stays within the list, see
  \<open>stringRing_next_keeps_range\<close> and \<open>next_calls_from\<close>.)
\<close>

theorem empty_ring_panics:
  "newStringRing [] = \<lparr>index = 0, values_ring = []\<rparr> \<and>
   stringRing_next (newStringRing []) = None \<and>
   snd (construct (Some no_zones_client) fake_marshal fifo
      [(''pool-X'', [\<lparr>pc_Clusters = [\<lparr>cl_Zone = ''''\<rparr>], pc_Vms = []\<rparr>])] 0 one_project) =
     ([], Panics)"
  by (simp add: run_simps)

subsection \<open>The scenario of one project with two zones\<close>

text \<open>
  C9. The request group has the one resource type \<open>pool-X\<close> with one project config
  of one cluster spec and one VM spec, neither with a zone; the pool holds the one
  project \<open>proj-1\<close> under \<open>pool-X\<close>, whose zones are listed as \<open>us-a\<close>, \<open>us-b\<close>. Then
  the cluster is created in \<open>us-a\<close> and the VM in \<open>us-b\<close> (the cluster loop draws from
  the ring before the VM loop), and, the two creation calls returning instances in
  the zones asked for, the inventory maps \<open>proj-1\<close> to that one cluster in \<open>us-a\<close> and
  that one VM in \<open>us-b\<close>, in whichever order the two tasks come to their end.
\<close>

theorem scenario_pool_X:
  assumes "rearranges sched"
    and "lookup (s types) ''pool-X'' = [project]" and "r_Name project = ''proj-1''"
    and "gce_listZones client ''proj-1'' = ([''us-a'', ''us-b''], None)"
    and "cl_Zone cl = []" and "vm_Zone vm = []"
    and "\<forall>x. gke_create client x ''proj-1'' (cl\<lparr>cl_Zone := ''us-a''\<rparr>) =
               (Some \<lparr>Name = cname, Zone = ''us-a''\<rparr>, None)"
    and "\<forall>x. gce_create client x ''proj-1'' (vm\<lparr>vm_Zone := ''us-b''\<rparr>) =
               (Some \<lparr>Name = vname, Zone = ''us-b''\<rparr>, None)"
    and "inventory = [''proj-1'' \<mapsto> \<lparr>Clusters = [\<lparr>Name = cname, Zone = ''us-a''\<rparr>],
                                        VMs = [\<lparr>Name = vname, Zone = ''us-b''\<rparr>]\<rparr>]"
    and "marshal inventory = Inr txt"
  shows "snd (construct (Some client) marshal sched
                [(''pool-X'', [\<lparr>pc_Clusters = [cl], pc_Vms = [vm]\<rparr>])] types s) =
           ([ClusterTask ''proj-1'' (cl\<lparr>cl_Zone := ''us-a''\<rparr>),
             VmTask ''proj-1'' (vm\<lparr>vm_Zone := ''us-b''\<rparr>)],
            Returns (Some [ResourceConfigType \<mapsto> txt]) (Some inventory) None)"
proof -
  let ?t1 = "ClusterTask ''proj-1'' (cl\<lparr>cl_Zone := ''us-a''\<rparr>)"
  let ?t2 = "VmTask ''proj-1'' (vm\<lparr>vm_Zone := ''us-b''\<rparr>)"
  let ?rc = "[(''pool-X'', [\<lparr>pc_Clusters = [cl], pc_Vms = [vm]\<rparr>])]"
  have d: "snd (rc_loop client types ?rc s) = ([?t1, ?t2], Done)"
    using assms(2-6)
    by (simp add: pc_body_def popProject_def newStringRing_def cluster_zone_def vm_zone_def
          stringRing_next_def)
  have "mset (sched [?t1, ?t2]) = {#?t1, ?t2#}"
    using assms(1) by (simp add: rearranges_def)
  then have "sched [?t1, ?t2] = [?t1, ?t2] \<or> sched [?t1, ?t2] = [?t2, ?t1]"
    by (rule two_orders)
  then show ?thesis
    using assms(7-10)
    by (auto simp: construct_Done [OF d] Let_def group_init_def derivedCtx_def send_def
          errGroup_Wait_def maxChannels_def UserData_Set_def)
qed

theorem scenario_pool_X_witness:
  "snd (construct (Some fake_client) fake_marshal rev
      [(''pool-X'', [\<lparr>pc_Clusters = [\<lparr>cl_Zone = ''''\<rparr>], pc_Vms = [\<lparr>vm_Zone = ''''\<rparr>]\<rparr>])]
      0 one_project) =
     ([ClusterTask ''proj-1'' \<lparr>cl_Zone = ''us-a''\<rparr>, VmTask ''proj-1'' \<lparr>vm_Zone = ''us-b''\<rparr>],
      Returns (Some [ResourceConfigType \<mapsto> ''inventory''])
        (Some [''proj-1'' \<mapsto> \<lparr>Clusters = [\<lparr>Name = ''cluster'', Zone = ''us-a''\<rparr>],
                                 VMs = [\<lparr>Name = ''vm'', Zone = ''us-b''\<rparr>]\<rparr>]) None)"
proof -
  let ?inv = "[''proj-1'' \<mapsto> \<lparr>Clusters = [\<lparr>Name = ''cluster'', Zone = ''us-a''\<rparr>],
                                 VMs = [\<lparr>Name = ''vm'', Zone = ''us-b''\<rparr>]\<rparr>]"
  have r: "rearranges (rev :: (unit, unit) task list \<Rightarrow> (unit, unit) task list)"
    by (simp add: rearranges_def)
  have l: "lookup (one_project 0) ''pool-X'' = [\<lparr>r_Name = ''proj-1''\<rparr>]"
    by (simp add: lookup_def one_project_def)
  have n: "r_Name \<lparr>r_Name = ''proj-1''\<rparr> = ''proj-1''" by simp
  have z: "gce_listZones fake_client ''proj-1'' = ([''us-a'', ''us-b''], None)"
    by (simp add: fake_client_def)
  have c: "cl_Zone \<lparr>cl_Zone = ''''\<rparr> = []" and v: "vm_Zone \<lparr>vm_Zone = ''''\<rparr> = []"
    by simp_all
  have k: "\<forall>x. gke_create fake_client x ''proj-1'' (\<lparr>cl_Zone = ''''\<rparr>\<lparr>cl_Zone := ''us-a''\<rparr>) =
             (Some \<lparr>Name = ''cluster'', Zone = ''us-a''\<rparr>, None)"
    by (simp add: fake_client_def fake_gke_create_def)
  have g: "\<forall>x. gce_create fake_client x ''proj-1'' (\<lparr>vm_Zone = ''''\<rparr>\<lparr>vm_Zone := ''us-b''\<rparr>) =
             (Some \<lparr>Name = ''vm'', Zone = ''us-b''\<rparr>, None)"
    by (simp add: fake_client_def fake_gce_create_def)
  have m: "fake_marshal ?inv = Inr ''inventory''" by (simp add: fake_marshal_def)
  from scenario_pool_X [where s = one_project and types = 0 and inventory = ?inv
      and marshal = fake_marshal, OF r l n z c v k g refl m]
  show ?thesis by simp
qed

end
